theory Spec2Isabelle
  imports Complex_Main "HOL-Library.AList" "HOL-Library.Sublist"
begin

section \<open>Python values shared by the models\<close>

text \<open>
  \<^item> \<open>Decimal\<close> values are exact rationals (\<open>rat\<close>): constructing a \<open>Decimal\<close> from
    a string, comparing two of them and negating one are exact in Python, and so are sums
    and differences as long as the result has at most 28 significant digits (the default
    context of the \<open>decimal\<close> module, which the repository never changes).
  \<^item> A \<open>str\<close> is a \<open>string\<close>: a list of characters whose code points are below 256.
  \<^item> A raised exception is a value of \<open>py_error\<close>; a method that mutates its object and
    may raise returns the outcome together with the object as the raise left it.
\<close>

datatype py_error =
    ValueError string
  | ValidationError string
  | EquipmentError string
  | AttributeError
  | TypeError

type_synonym decimal = rat

text \<open>
  \<open>str.lower()\<close> on code points below 256: the upper-case letters are \<open>A\<close>..\<open>Z\<close> and
  \<open>0xC0\<close>..\<open>0xDE\<close> without \<open>0xD7\<close>; each is mapped to the code point 32 above it, which
  sets bit 5 (clear in every one of them).
\<close>

definition is_upper :: "char \<Rightarrow> bool" where
  "is_upper c = (let n = (of_char c :: nat) in
     (65 \<le> n \<and> n \<le> 90) \<or> (192 \<le> n \<and> n \<le> 222 \<and> n \<noteq> 215))"

definition lower_char :: "char \<Rightarrow> char" where
  "lower_char c =
     (if is_upper c
      then (case c of Char b0 b1 b2 b3 b4 b5 b6 b7 \<Rightarrow> Char b0 b1 b2 b3 b4 True b6 b7)
      else c)"

definition lower :: "string \<Rightarrow> string" where
  "lower s = map lower_char s"

text \<open>
  The models of the pydantic classes run a method as a list of steps. A step is one
  assignment \<open>self.f = v\<close> under \<open>validate_assignment = True\<close>: it either stores the
  value or raises \<open>ValidationError\<close> and leaves the object as it was. A raise ends the
  method; the assignments made before it stay.
\<close>

fun run_steps :: "('s \<Rightarrow> py_error + 's) list \<Rightarrow> 's \<Rightarrow> (py_error + unit) \<times> 's" where
  "run_steps [] s = (Inr (), s)"
| "run_steps (f # fs) s = (case f s of Inl e \<Rightarrow> (Inl e, s) | Inr s' \<Rightarrow> run_steps fs s')"

section \<open>models/cashier\_session.py\<close>

datatype SessionStatus = OPEN | CLOSED | SUSPENDED

text \<open>Times (\<open>datetime\<close>) are integers, a count of microseconds.\<close>

record CashierSession =
  session_number :: "string option"
  user_id :: int
  user_name :: "string option"
  terminal_id :: "string option"
  opened_at :: int
  closed_at :: "int option"
  opening_cash :: decimal
  total_sales :: decimal
  total_cash_sales :: decimal
  total_card_sales :: decimal
  total_pix_sales :: decimal
  total_other_sales :: decimal
  sales_count :: int
  cancelled_sales_count :: int
  closing_cash :: "decimal option"
  expected_cash :: "decimal option"
  cash_difference :: "decimal option"
  status :: SessionStatus
  opening_notes :: "string option"
  closing_notes :: "string option"
  synced :: bool
  sync_error :: "string option"

text \<open>
  \<open>CashierSession(user_id=u, opening_cash=c)\<close> with \<open>opened_at\<close> from the clock: every
  other field takes its declared default; \<open>opening_cash\<close> is declared \<open>ge=0\<close>.
\<close>

definition default_session :: "int \<Rightarrow> decimal \<Rightarrow> int \<Rightarrow> CashierSession" where
  "default_session u c now =
           \<lparr> session_number = None, user_id = u, user_name = None, terminal_id = None,
                 opened_at = now, closed_at = None, opening_cash = c,
                 total_sales = 0, total_cash_sales = 0, total_card_sales = 0,
                 total_pix_sales = 0, total_other_sales = 0,
                 sales_count = 0, cancelled_sales_count = 0,
                 closing_cash = None, expected_cash = None, cash_difference = None,
                 status = OPEN, opening_notes = None, closing_notes = None,
                 synced = False, sync_error = None \<rparr>"

definition new_session :: "int \<Rightarrow> decimal \<Rightarrow> int \<Rightarrow> py_error + CashierSession" where
  "new_session u c now =
     (if c < 0 then Inl (ValidationError ''opening_cash'') else Inr (default_session u c now))"

text \<open>The validated assignments: \<open>ge=0\<close> on the totals, the counters and the cash fields.\<close>

definition set_total_sales :: "decimal \<Rightarrow> CashierSession \<Rightarrow> py_error + CashierSession" where
  "set_total_sales v s =
     (if v < 0 then Inl (ValidationError ''total_sales'') else Inr (s\<lparr>total_sales := v\<rparr>))"

definition set_total_cash_sales :: "decimal \<Rightarrow> CashierSession \<Rightarrow> py_error + CashierSession" where
  "set_total_cash_sales v s =
     (if v < 0 then Inl (ValidationError ''total_cash_sales'')
      else Inr (s\<lparr>total_cash_sales := v\<rparr>))"

definition set_total_card_sales :: "decimal \<Rightarrow> CashierSession \<Rightarrow> py_error + CashierSession" where
  "set_total_card_sales v s =
     (if v < 0 then Inl (ValidationError ''total_card_sales'')
      else Inr (s\<lparr>total_card_sales := v\<rparr>))"

definition set_total_pix_sales :: "decimal \<Rightarrow> CashierSession \<Rightarrow> py_error + CashierSession" where
  "set_total_pix_sales v s =
     (if v < 0 then Inl (ValidationError ''total_pix_sales'')
      else Inr (s\<lparr>total_pix_sales := v\<rparr>))"

definition set_total_other_sales :: "decimal \<Rightarrow> CashierSession \<Rightarrow> py_error + CashierSession" where
  "set_total_other_sales v s =
     (if v < 0 then Inl (ValidationError ''total_other_sales'')
      else Inr (s\<lparr>total_other_sales := v\<rparr>))"

definition set_sales_count :: "int \<Rightarrow> CashierSession \<Rightarrow> py_error + CashierSession" where
  "set_sales_count v s =
     (if v < 0 then Inl (ValidationError ''sales_count'') else Inr (s\<lparr>sales_count := v\<rparr>))"

definition set_cancelled_sales_count :: "int \<Rightarrow> CashierSession \<Rightarrow> py_error + CashierSession" where
  "set_cancelled_sales_count v s =
     (if v < 0 then Inl (ValidationError ''cancelled_sales_count'')
      else Inr (s\<lparr>cancelled_sales_count := v\<rparr>))"

text \<open>\<open>closing_cash\<close>: \<open>ge=0\<close>, and the validator \<open>validate_closing_cash\<close>.\<close>

definition set_closing_cash :: "decimal option \<Rightarrow> CashierSession \<Rightarrow> py_error + CashierSession" where
  "set_closing_cash v s =
     (case v of
        None \<Rightarrow> (if status s = CLOSED then Inl (ValidationError ''closing_cash'')
                 else Inr (s\<lparr>closing_cash := None\<rparr>))
      | Some c \<Rightarrow> (if c < 0 then Inl (ValidationError ''closing_cash'')
                   else Inr (s\<lparr>closing_cash := Some c\<rparr>)))"

definition set_expected_cash :: "decimal option \<Rightarrow> CashierSession \<Rightarrow> py_error + CashierSession" where
  "set_expected_cash v s =
     (case v of
        None \<Rightarrow> Inr (s\<lparr>expected_cash := None\<rparr>)
      | Some c \<Rightarrow> (if c < 0 then Inl (ValidationError ''expected_cash'')
                   else Inr (s\<lparr>expected_cash := Some c\<rparr>)))"

text \<open>\<open>closed_at\<close>: the validator \<open>validate_closed_at\<close> wants it after \<open>opened_at\<close>.\<close>

definition set_closed_at :: "int option \<Rightarrow> CashierSession \<Rightarrow> py_error + CashierSession" where
  "set_closed_at v s =
     (case v of
        None \<Rightarrow> Inr (s\<lparr>closed_at := None\<rparr>)
      | Some t \<Rightarrow> (if t \<le> opened_at s then Inl (ValidationError ''closed_at'')
                   else Inr (s\<lparr>closed_at := Some t\<rparr>)))"

definition calculate_expected_cash :: "CashierSession \<Rightarrow> decimal" where
  "calculate_expected_cash s = opening_cash s + total_cash_sales s"

definition calculate_difference :: "CashierSession \<Rightarrow> decimal option" where
  "calculate_difference s =
     (case closing_cash s of
        Some c \<Rightarrow> Some (c - calculate_expected_cash s)
      | None \<Rightarrow> None)"

text \<open>
  The branch of \<open>add_sale\<close> and \<open>cancel_sale\<close> that picks the category from
  \<open>payment_method.lower()\<close>; \<open>d\<close> is \<open>amount\<close> or \<open>-amount\<close>.
\<close>

definition bump_category :: "string \<Rightarrow> decimal \<Rightarrow> CashierSession \<Rightarrow> py_error + CashierSession" where
  "bump_category payment_method d s =
     (if lower payment_method = ''cash'' then set_total_cash_sales (total_cash_sales s + d) s
      else if lower payment_method \<in> set [''credit_card'', ''debit_card'']
        then set_total_card_sales (total_card_sales s + d) s
      else if lower payment_method = ''pix'' then set_total_pix_sales (total_pix_sales s + d) s
      else set_total_other_sales (total_other_sales s + d) s)"

definition add_sale :: "decimal \<Rightarrow> string \<Rightarrow> CashierSession \<Rightarrow> (py_error + unit) \<times> CashierSession" where
  "add_sale amount payment_method =
     run_steps
       [\<lambda>s. set_total_sales (total_sales s + amount) s,
        \<lambda>s. set_sales_count (sales_count s + 1) s,
        bump_category payment_method amount]"

definition cancel_sale :: "decimal \<Rightarrow> string \<Rightarrow> CashierSession \<Rightarrow> (py_error + unit) \<times> CashierSession" where
  "cancel_sale amount payment_method =
     run_steps
       [\<lambda>s. set_total_sales (total_sales s - amount) s,
        \<lambda>s. set_sales_count (sales_count s - 1) s,
        \<lambda>s. set_cancelled_sales_count (cancelled_sales_count s + 1) s,
        bump_category payment_method (- amount)]"

definition can_close :: "CashierSession \<Rightarrow> bool" where
  "can_close s = (status s = OPEN)"

definition close_session ::
  "decimal \<Rightarrow> string option \<Rightarrow> int \<Rightarrow> CashierSession \<Rightarrow> (py_error + unit) \<times> CashierSession" where
  "close_session closing notes now s =
     (if \<not> can_close s
      then (Inl (ValueError (''Sess'' @ [CHR 0xE3] @ ''o n'' @ [CHR 0xE3]
              @ ''o pode ser fechada no status atual'')), s)
      else run_steps
        [set_closing_cash (Some closing),
         \<lambda>s. set_expected_cash (Some (calculate_expected_cash s)) s,
         \<lambda>s. Inr (s\<lparr>cash_difference := calculate_difference s\<rparr>),
         set_closed_at (Some now),
         \<lambda>s. Inr (s\<lparr>closing_notes := notes\<rparr>),
         \<lambda>s. Inr (s\<lparr>status := CLOSED\<rparr>)] s)"

definition suspend_session :: "string option \<Rightarrow> CashierSession \<Rightarrow> CashierSession" where
  "suspend_session notes s =
     (if status s = OPEN
      then (let s1 = s\<lparr>status := SUSPENDED\<rparr>
            in (case notes of
                  None \<Rightarrow> s1
                | Some n \<Rightarrow> if n = [] then s1 else s1\<lparr>closing_notes := Some n\<rparr>))
      else s)"

definition resume_session :: "CashierSession \<Rightarrow> CashierSession" where
  "resume_session s = (if status s = SUSPENDED then s\<lparr>status := OPEN\<rparr> else s)"

text \<open>A call of one of the two bookkeeping methods, and a run of such calls in order.\<close>

datatype sale_call = AddSale decimal string | CancelSale decimal string

fun do_call :: "sale_call \<Rightarrow> CashierSession \<Rightarrow> (py_error + unit) \<times> CashierSession" where
  "do_call (AddSale a m) s = add_sale a m s"
| "do_call (CancelSale a m) s = cancel_sale a m s"

text \<open>
  \<open>run_calls\<close> makes the calls one after the other on the same object and gives the
  object after the last one, or \<open>None\<close> as soon as a call raises.
\<close>

fun run_calls :: "sale_call list \<Rightarrow> CashierSession \<Rightarrow> CashierSession option" where
  "run_calls [] s = Some s"
| "run_calls (c # cs) s =
     (case do_call c s of
        (Inl e, s') \<Rightarrow> None
      | (Inr u, s') \<Rightarrow> run_calls cs s')"

fun is_add :: "sale_call \<Rightarrow> bool" where
  "is_add (AddSale a m) = True"
| "is_add (CancelSale a m) = False"

definition category_sum :: "CashierSession \<Rightarrow> decimal" where
  "category_sum s =
     total_cash_sales s + total_card_sales s + total_pix_sales s + total_other_sales s"

section \<open>models/sale.py\<close>

text \<open>
  The fields of \<open>SaleItem\<close> and \<open>Sale\<close> that the totals are computed from. The
  identification, customer, fiscal and synchronisation fields are neither read nor
  written by the methods below and are left out.
\<close>

record SaleItem =
  product_id :: int
  quantity :: int
  weight :: "decimal option"
  unit_price :: decimal
  total_price :: decimal
  discount_amount :: decimal
  discount_percentage :: "decimal option"
  tax_rate :: "decimal option"
  tax_amount :: "decimal option"

text \<open>
  What the constructor of \<open>SaleItem\<close> accepts: the declared bounds of each field and the
  validator \<open>validate_total_price\<close>. The validator runs when \<open>total_price\<close> is validated,
  after \<open>quantity\<close>, \<open>weight\<close> and \<open>unit_price\<close> and before \<open>discount_amount\<close>, whose
  value is therefore not among \<open>values\<close> yet.
\<close>

definition in_percent_range :: "decimal option \<Rightarrow> bool" where
  "in_percent_range v = (case v of None \<Rightarrow> True | Some p \<Rightarrow> 0 \<le> p \<and> p \<le> 100)"

definition expected_total_price :: "SaleItem \<Rightarrow> decimal" where
  "expected_total_price it =
     (case weight it of
        None \<Rightarrow> unit_price it * of_int (quantity it)
      | Some w \<Rightarrow> if w = 0 then unit_price it * of_int (quantity it) else unit_price it * w)"

definition valid_item :: "SaleItem \<Rightarrow> bool" where
  "valid_item it =
     (0 < quantity it
      \<and> (case weight it of None \<Rightarrow> True | Some w \<Rightarrow> 0 \<le> w)
      \<and> 0 \<le> unit_price it
      \<and> 0 \<le> total_price it
      \<and> \<not> (\<bar>total_price it - expected_total_price it\<bar> > 1 / 100)
      \<and> 0 \<le> discount_amount it
      \<and> in_percent_range (discount_percentage it)
      \<and> in_percent_range (tax_rate it)
      \<and> (case tax_amount it of None \<Rightarrow> True | Some t \<Rightarrow> 0 \<le> t))"

record Sale =
  items :: "SaleItem list"
  subtotal :: decimal
  discount_amount :: decimal
  discount_percentage :: "decimal option"
  tax_amount :: decimal
  total_amount :: decimal
  amount_paid :: decimal
  change_amount :: decimal

text \<open>\<open>Sale(payment_method=m)\<close>: every modelled field takes its declared default.\<close>

definition default_sale :: Sale where
  "default_sale =
     \<lparr> items = [], subtotal = 0, discount_amount = 0, discount_percentage = None,
       tax_amount = 0, total_amount = 0, amount_paid = 0, change_amount = 0 \<rparr>"

text \<open>
  The validated assignments of \<open>Sale\<close>: \<open>ge=0\<close> on the amounts, \<open>ge=0, le=100\<close> on the
  percentage, and the validator \<open>validate_items\<close>, which refuses an empty list.
\<close>

definition set_items :: "SaleItem list \<Rightarrow> Sale \<Rightarrow> py_error + Sale" where
  "set_items v s =
     (if v = [] then Inl (ValidationError ''items'') else Inr (s\<lparr>items := v\<rparr>))"

definition set_subtotal :: "decimal \<Rightarrow> Sale \<Rightarrow> py_error + Sale" where
  "set_subtotal v s =
     (if v < 0 then Inl (ValidationError ''subtotal'') else Inr (s\<lparr>subtotal := v\<rparr>))"

definition set_discount_amount :: "decimal \<Rightarrow> Sale \<Rightarrow> py_error + Sale" where
  "set_discount_amount v s =
     (if v < 0 then Inl (ValidationError ''discount_amount'')
      else Inr (s\<lparr>discount_amount := v\<rparr>))"

definition set_discount_percentage :: "decimal option \<Rightarrow> Sale \<Rightarrow> py_error + Sale" where
  "set_discount_percentage v s =
     (if in_percent_range v then Inr (s\<lparr>discount_percentage := v\<rparr>)
      else Inl (ValidationError ''discount_percentage''))"

definition set_tax_amount :: "decimal \<Rightarrow> Sale \<Rightarrow> py_error + Sale" where
  "set_tax_amount v s =
     (if v < 0 then Inl (ValidationError ''tax_amount'') else Inr (s\<lparr>tax_amount := v\<rparr>))"

definition set_total_amount :: "decimal \<Rightarrow> Sale \<Rightarrow> py_error + Sale" where
  "set_total_amount v s =
     (if v < 0 then Inl (ValidationError ''total_amount'') else Inr (s\<lparr>total_amount := v\<rparr>))"

definition set_change_amount :: "decimal \<Rightarrow> Sale \<Rightarrow> py_error + Sale" where
  "set_change_amount v s =
     (if v < 0 then Inl (ValidationError ''change_amount'')
      else Inr (s\<lparr>change_amount := v\<rparr>))"

text \<open>The three sums over the items; \<open>item.tax_amount or 0\<close> reads an absent tax as 0.\<close>

definition sum_total_price :: "SaleItem list \<Rightarrow> decimal" where
  "sum_total_price xs = sum_list (map total_price xs)"

definition sum_item_discount :: "SaleItem list \<Rightarrow> decimal" where
  "sum_item_discount xs = sum_list (map SaleItem.discount_amount xs)"

definition sum_item_tax :: "SaleItem list \<Rightarrow> decimal" where
  "sum_item_tax xs =
     sum_list (map (\<lambda>it. case SaleItem.tax_amount it of None \<Rightarrow> 0 | Some t \<Rightarrow> t) xs)"

text \<open>\<open>if self.discount_percentage:\<close> is false for \<open>None\<close> and for a zero percentage.\<close>

definition general_discount :: "Sale \<Rightarrow> decimal" where
  "general_discount s =
     (case discount_percentage s of
        None \<Rightarrow> 0
      | Some p \<Rightarrow> if p = 0 then 0 else (subtotal s * p) / 100)"

definition calculate_totals :: "Sale \<Rightarrow> (py_error + unit) \<times> Sale" where
  "calculate_totals =
     run_steps
       [\<lambda>s. set_subtotal (sum_total_price (items s)) s,
        \<lambda>s. set_discount_amount (sum_item_discount (items s)) s,
        \<lambda>s. set_tax_amount (sum_item_tax (items s)) s,
        \<lambda>s. (case discount_percentage s of
                None \<Rightarrow> Inr s
              | Some p \<Rightarrow> if p = 0 then Inr s
                          else set_discount_amount (discount_amount s + (subtotal s * p) / 100) s),
        \<lambda>s. set_total_amount (subtotal s - discount_amount s + tax_amount s) s,
        \<lambda>s. (if amount_paid s > total_amount s
              then set_change_amount (amount_paid s - total_amount s) s
              else set_change_amount 0 s)]"

text \<open>\<open>self.items.append(item)\<close> changes the list in place: no assignment, no validation.\<close>

definition add_item :: "SaleItem \<Rightarrow> Sale \<Rightarrow> (py_error + unit) \<times> Sale" where
  "add_item it s = calculate_totals (s\<lparr>items := items s @ [it]\<rparr>)"

definition pop_at :: "nat \<Rightarrow> 'a list \<Rightarrow> 'a list" where
  "pop_at i xs = take i xs @ drop (Suc i) xs"

definition remove_item :: "int \<Rightarrow> Sale \<Rightarrow> (py_error + unit) \<times> Sale" where
  "remove_item index s =
     (if 0 \<le> index \<and> index < int (length (items s))
      then calculate_totals (s\<lparr>items := pop_at (nat index) (items s)\<rparr>)
      else (Inr (), s))"

definition clear_items :: "Sale \<Rightarrow> (py_error + unit) \<times> Sale" where
  "clear_items s =
     (case set_items [] s of
        Inl e \<Rightarrow> (Inl e, s)
      | Inr s' \<Rightarrow> calculate_totals s')"

definition apply_discount :: "decimal \<Rightarrow> Sale \<Rightarrow> (py_error + unit) \<times> Sale" where
  "apply_discount percentage s =
     (if 0 \<le> percentage \<and> percentage \<le> 100
      then (case set_discount_percentage (Some percentage) s of
              Inl e \<Rightarrow> (Inl e, s)
            | Inr s' \<Rightarrow> calculate_totals s')
      else (Inr (), s))"

text \<open>
  A mutation of a sale, and whether its guard lets it reach \<open>calculate_totals\<close>
  (\<open>remove_item\<close> and \<open>apply_discount\<close> do nothing outside their range).
\<close>

datatype sale_mutation = AddItem SaleItem | RemoveItem int | ClearItems | ApplyDiscount decimal

fun mutate :: "sale_mutation \<Rightarrow> Sale \<Rightarrow> (py_error + unit) \<times> Sale" where
  "mutate (AddItem it) s = add_item it s"
| "mutate (RemoveItem i) s = remove_item i s"
| "mutate ClearItems s = clear_items s"
| "mutate (ApplyDiscount p) s = apply_discount p s"

fun recomputes :: "sale_mutation \<Rightarrow> Sale \<Rightarrow> bool" where
  "recomputes (AddItem it) s = True"
| "recomputes (RemoveItem i) s = (0 \<le> i \<and> i < int (length (items s)))"
| "recomputes ClearItems s = True"
| "recomputes (ApplyDiscount p) s = (0 \<le> p \<and> p \<le> 100)"

text \<open>The totals of a sale are the ones \<open>calculate_totals\<close> derives from its items.\<close>

definition totals_from_items :: "Sale \<Rightarrow> bool" where
  "totals_from_items s =
     (subtotal s = sum_total_price (items s)
      \<and> discount_amount s = sum_item_discount (items s) + general_discount s
      \<and> tax_amount s = sum_item_tax (items s)
      \<and> total_amount s = subtotal s - discount_amount s + tax_amount s)"

section \<open>Python string operations used by the scale drivers\<close>

text \<open>
  The character classes of \<open>str\<close> on code points below 256: \<open>isprintable\<close> is false for
  the control characters (\<open>0x00\<close>..\<open>0x1F\<close>, \<open>0x7F\<close>..\<open>0x9F\<close>), the no-break space
  \<open>0xA0\<close> and the soft hyphen \<open>0xAD\<close>; \<open>isdigit\<close> is true for \<open>0\<close>..\<open>9\<close> and the
  superscripts \<open>0xB2\<close>, \<open>0xB3\<close>, \<open>0xB9\<close>; \<open>isspace\<close> is true for \<open>0x09\<close>..\<open>0x0D\<close>,
  \<open>0x1C\<close>..\<open>0x20\<close>, \<open>0x85\<close> and \<open>0xA0\<close>.
\<close>

definition isprintable :: "char \<Rightarrow> bool" where
  "isprintable c = (let n = (of_char c :: nat) in
     (32 \<le> n \<and> n \<le> 126) \<or> (161 \<le> n \<and> n \<noteq> 173))"

definition isdigit :: "char \<Rightarrow> bool" where
  "isdigit c = (let n = (of_char c :: nat) in
     (48 \<le> n \<and> n \<le> 57) \<or> n = 178 \<or> n = 179 \<or> n = 185)"

definition isspace :: "char \<Rightarrow> bool" where
  "isspace c = (let n = (of_char c :: nat) in
     (9 \<le> n \<and> n \<le> 13) \<or> (28 \<le> n \<and> n \<le> 32) \<or> n = 133 \<or> n = 160)"

definition strip :: "string \<Rightarrow> string" where
  "strip s = rev (dropWhile isspace (rev (dropWhile isspace s)))"

text \<open>\<open>s.lstrip(chars)\<close> drops the leading characters that occur in \<open>chars\<close>.\<close>

definition lstrip :: "string \<Rightarrow> string \<Rightarrow> string" where
  "lstrip chars s = dropWhile (\<lambda>c. c \<in> set chars) s"

text \<open>\<open>sub in s\<close>: \<open>sub\<close> occurs in \<open>s\<close> as a contiguous piece.\<close>

fun contains :: "string \<Rightarrow> string \<Rightarrow> bool" where
  "contains sub [] = (sub = [])"
| "contains sub (c # s) = (prefix sub (c # s) \<or> contains sub s)"

text \<open>\<open>s.split(',')[-1]\<close>: what follows the last comma, or all of \<open>s\<close> without one.\<close>

definition last_field :: "string \<Rightarrow> string" where
  "last_field s = rev (takeWhile (\<lambda>c. c \<noteq> CHR '','') (rev s))"

text \<open>\<open>s.replace('kg', '')\<close>: the occurrences of \<open>kg\<close> are removed from left to right.\<close>

fun replace_kg :: "string \<Rightarrow> string" where
  "replace_kg (a # b # s) =
     (if a = CHR ''k'' \<and> b = CHR ''g'' then replace_kg s else a # replace_kg (b # s))"
| "replace_kg s = s"

text \<open>
  \<open>Decimal(s)\<close> for a string of digits, points and signs, which is all the drivers pass
  to it: an optional sign, then decimal digits with at most one point and at least one
  digit. Only \<open>0\<close>..\<open>9\<close> are decimal digits below code point 256. Anything else raises
  \<open>InvalidOperation\<close>, here \<open>None\<close>.
\<close>

definition is_decimal_digit :: "char \<Rightarrow> bool" where
  "is_decimal_digit c = (let n = (of_char c :: nat) in 48 \<le> n \<and> n \<le> 57)"

definition digit_value :: "char \<Rightarrow> nat" where
  "digit_value c = of_char c - 48"

definition digits_value :: "string \<Rightarrow> nat" where
  "digits_value s = foldl (\<lambda>acc c. 10 * acc + digit_value c) 0 s"

definition unsigned_decimal :: "string \<Rightarrow> decimal option" where
  "unsigned_decimal s =
     (let ip = takeWhile is_decimal_digit s; rest = dropWhile is_decimal_digit s
      in case rest of
           [] \<Rightarrow> if ip = [] then None else Some (of_nat (digits_value ip))
         | c # fp \<Rightarrow>
             if c = CHR ''.'' \<and> list_all is_decimal_digit fp \<and> (ip \<noteq> [] \<or> fp \<noteq> [])
             then Some (of_nat (digits_value ip) + of_nat (digits_value fp) / 10 ^ length fp)
             else None)"

definition Decimal :: "string \<Rightarrow> decimal option" where
  "Decimal s =
     (case s of
        [] \<Rightarrow> None
      | c # r \<Rightarrow>
          if c = CHR ''-'' then map_option uminus (unsigned_decimal r)
          else if c = CHR ''+'' then unsigned_decimal r
          else unsigned_decimal s)"

section \<open>equipment/base.py and equipment/scales\<close>

datatype EquipmentStatus = DISCONNECTED | CONNECTING | CONNECTED | ERROR | BUSY

text \<open>
  The state of a scale driver: the fields of \<open>BaseEquipment\<close> and \<open>BaseScale\<close> and the
  \<open>serial_connection\<close> of the vendor classes, which is \<open>None\<close> or a port whose \<open>is_open\<close>
  is the boolean.
\<close>

record BaseScale =
  serial_connection :: "bool option"
  status :: EquipmentStatus
  last_error :: "string option"
  last_weight :: "decimal option"
  is_stable :: bool

definition new_scale :: BaseScale where
  "new_scale = \<lparr> serial_connection = None, status = DISCONNECTED, last_error = None,
                 last_weight = None, is_stable = False \<rparr>"

definition set_error :: "string \<Rightarrow> BaseScale \<Rightarrow> BaseScale" where
  "set_error error_message d = d\<lparr>last_error := Some error_message, status := ERROR\<rparr>"

definition clear_error :: "BaseScale \<Rightarrow> BaseScale" where
  "clear_error d =
     (let d1 = d\<lparr>last_error := None\<rparr>
      in if status d1 = ERROR then d1\<lparr>status := DISCONNECTED\<rparr> else d1)"

definition is_connected :: "BaseScale \<Rightarrow> bool" where
  "is_connected d =
     (case serial_connection d of
        None \<Rightarrow> False
      | Some is_open \<Rightarrow> is_open \<and> status d = CONNECTED)"

text \<open>
  What the serial port does during one \<open>read_weight\<close>, between \<open>reset_input_buffer()\<close>
  and \<open>readline().decode()\<close>: it delivers a line (the decoded text, before \<open>strip()\<close>),
  or one of the calls raises \<open>SerialTimeoutException\<close>, or one raises another exception
  \<open>e\<close>, of which \<open>str(e)\<close> is kept.
\<close>

datatype serial_reply = Line string | SerialTimeoutException | OtherException string

subsection \<open>toledo.py\<close>

definition toledo_weight_str :: "string \<Rightarrow> string" where
  "toledo_weight_str clean_response =
     filter (\<lambda>c. isdigit c \<or> c \<in> set ''.-+'') (replace_kg (last_field clean_response))"

definition parse_toledo_response :: "string \<Rightarrow> BaseScale \<Rightarrow> decimal option \<times> BaseScale" where
  "parse_toledo_response response d =
     (let clean_response = filter isprintable response
      in if contains ''kg'' clean_response
         then (let weight_str = toledo_weight_str clean_response
               in if weight_str \<noteq> []
                  then (case Decimal weight_str of
                          None \<Rightarrow> (None, d)
                        | Some w \<Rightarrow>
                            (Some w,
                             d\<lparr>is_stable := contains ''ST'' clean_response
                                   \<or> contains ''stable'' (lower clean_response)\<rparr>))
                  else (None, d))
         else (None, d))"

subsection \<open>filizola.py\<close>

definition filizola_numbers :: "string \<Rightarrow> string" where
  "filizola_numbers clean_response =
     filter (\<lambda>c. isdigit c \<or> c = CHR ''.'') (lstrip ''SW+-'' clean_response)"

definition parse_filizola_response :: "string \<Rightarrow> BaseScale \<Rightarrow> decimal option \<times> BaseScale" where
  "parse_filizola_response response d =
     (let clean_response = filter isprintable response;
          numbers = filizola_numbers clean_response
      in if numbers \<noteq> []
         then (case Decimal numbers of
                 None \<Rightarrow> (None, d)
               | Some w \<Rightarrow>
                   (Some w,
                    d\<lparr>is_stable := prefix ''S'' clean_response
                          \<or> contains ''stable'' (lower clean_response)\<rparr>))
         else (None, d))"

subsection \<open>read\_weight, tare and zero of both vendors\<close>

text \<open>
  \<open>ToledoScale\<close> and \<open>FilizolaScale\<close> have the same \<open>read_weight\<close>, \<open>tare\<close> and \<open>zero\<close>
  but for the parser they call (and the default command bytes they send), so the three
  methods are written once, over the vendor.
\<close>

datatype brand = Toledo | Filizola

fun parse_response :: "brand \<Rightarrow> string \<Rightarrow> BaseScale \<Rightarrow> decimal option \<times> BaseScale" where
  "parse_response Toledo = parse_toledo_response"
| "parse_response Filizola = parse_filizola_response"

definition msg_not_connected :: string where
  "msg_not_connected = ''Balan'' @ [CHR 0xE7] @ ''a n'' @ [CHR 0xE3] @ ''o conectada''"

definition msg_invalid_response :: string where
  "msg_invalid_response =
     ''Resposta inv'' @ [CHR 0xE1] @ ''lida da balan'' @ [CHR 0xE7] @ ''a''"

definition msg_timeout :: string where
  "msg_timeout = ''Timeout na comunica'' @ [CHR 0xE7, CHR 0xE3] @ ''o''"

definition msg_tare_failed :: string where
  "msg_tare_failed = ''Falha na execu'' @ [CHR 0xE7, CHR 0xE3] @ ''o da tara''"

text \<open>The \<open>finally\<close> clause of \<open>read_weight\<close>.\<close>

definition leave_busy :: "BaseScale \<Rightarrow> BaseScale" where
  "leave_busy d = (if status d = BUSY then d\<lparr>status := CONNECTED\<rparr> else d)"

definition read_weight :: "brand \<Rightarrow> serial_reply \<Rightarrow> BaseScale \<Rightarrow> decimal option \<times> BaseScale" where
  "read_weight v reply d =
     (if \<not> is_connected d then (None, set_error msg_not_connected d)
      else
        (let d1 = d\<lparr>status := BUSY\<rparr>
         in case reply of
              Line raw \<Rightarrow>
                (let response = strip raw
                 in if response \<noteq> []
                    then (case parse_response v response d1 of
                            (Some w, d2) \<Rightarrow>
                              (Some w,
                               leave_busy (d2\<lparr>last_weight := Some w, status := CONNECTED\<rparr>))
                          | (None, d2) \<Rightarrow>
                              (None, leave_busy (set_error msg_invalid_response d2)))
                    else (None, leave_busy (set_error msg_invalid_response d1)))
            | SerialTimeoutException \<Rightarrow> (None, leave_busy (set_error msg_timeout d1))
            | OtherException e \<Rightarrow>
                (None, leave_busy (set_error (''Erro na leitura: '' @ e) d1))))"

text \<open>
  \<open>tare\<close> writes its command, which raises (\<open>Some (str(e))\<close>) or not (\<open>None\<close>), sleeps,
  and reads the weight back; \<open>zero\<close> writes its command and sleeps.
\<close>

definition tare :: "brand \<Rightarrow> string option \<Rightarrow> serial_reply \<Rightarrow> BaseScale \<Rightarrow> bool \<times> BaseScale" where
  "tare v written reply d =
     (if \<not> is_connected d then (False, d)
      else case written of
             Some e \<Rightarrow> (False, set_error (''Erro na tara: '' @ e) d)
           | None \<Rightarrow>
               (case read_weight v reply d of
                  (current_weight, d1) \<Rightarrow>
                    if (case current_weight of
                          None \<Rightarrow> False
                        | Some w \<Rightarrow> \<bar>w\<bar> < 10 / 1000)
                    then (True, d1)
                    else (False, set_error msg_tare_failed d1)))"

definition zero :: "brand \<Rightarrow> string option \<Rightarrow> BaseScale \<Rightarrow> bool \<times> BaseScale" where
  "zero v written d =
     (if \<not> is_connected d then (False, d)
      else case written of
             Some e \<Rightarrow> (False, set_error (''Erro ao zerar: '' @ e) d)
           | None \<Rightarrow> (True, d))"

subsection \<open>scales/base.py: wait\_for\_stable\_weight\<close>

text \<open>
  The loop reads the clock at its head, reads the weight and sleeps 100 ms. Time is
  counted in milliseconds since \<open>start_time\<close>. The environment \<open>env\<close> says of the
  \<open>k\<close>-th poll how long the call of \<open>read_weight\<close> takes and what the port replies.
  The result is the weight, the time at which the method returns and the driver.
\<close>

function wait_loop ::
  "brand \<Rightarrow> int \<Rightarrow> (nat \<Rightarrow> nat \<times> serial_reply) \<Rightarrow> nat \<Rightarrow> nat \<Rightarrow> BaseScale
     \<Rightarrow> decimal option \<times> nat \<times> BaseScale" where
  "wait_loop v timeout_ms env k elapsed d =
     (if int elapsed < timeout_ms
      then (case read_weight v (snd (env k)) d of
              (w, d') \<Rightarrow>
                if w \<noteq> None \<and> is_stable d'
                then (w, elapsed + fst (env k), d')
                else wait_loop v timeout_ms env (Suc k) (elapsed + fst (env k) + 100) d')
      else (None, elapsed, d))"
  by pat_completeness auto
termination
  by (relation "measure (\<lambda>(v, timeout_ms, env, k, elapsed, d). nat (timeout_ms - int elapsed))")
     auto

definition wait_for_stable_weight ::
  "brand \<Rightarrow> int \<Rightarrow> (nat \<Rightarrow> nat \<times> serial_reply) \<Rightarrow> BaseScale
     \<Rightarrow> decimal option \<times> nat \<times> BaseScale" where
  "wait_for_stable_weight v timeout env d = wait_loop v (timeout * 1000) env 0 0 d"


text \<open>
  The polls of \<open>wait_for_stable_weight\<close> one by one: the driver before the \<open>k\<close>-th poll,
  the time at which the loop head is reached for the \<open>k\<close>-th time, what the \<open>k\<close>-th
  \<open>read_weight\<close> gives, and whether that is a weight with the stability flag set.
\<close>

fun driver_before :: "brand \<Rightarrow> (nat \<Rightarrow> nat \<times> serial_reply) \<Rightarrow> BaseScale \<Rightarrow> nat \<Rightarrow> BaseScale" where
  "driver_before v env d 0 = d"
| "driver_before v env d (Suc k) = snd (read_weight v (snd (env k)) (driver_before v env d k))"

fun poll_start :: "(nat \<Rightarrow> nat \<times> serial_reply) \<Rightarrow> nat \<Rightarrow> nat" where
  "poll_start env 0 = 0"
| "poll_start env (Suc k) = poll_start env k + fst (env k) + 100"

definition poll_result ::
  "brand \<Rightarrow> (nat \<Rightarrow> nat \<times> serial_reply) \<Rightarrow> BaseScale \<Rightarrow> nat \<Rightarrow> decimal option \<times> BaseScale" where
  "poll_result v env d k = read_weight v (snd (env k)) (driver_before v env d k)"

definition stable_reading ::
  "brand \<Rightarrow> (nat \<Rightarrow> nat \<times> serial_reply) \<Rightarrow> BaseScale \<Rightarrow> nat \<Rightarrow> bool" where
  "stable_reading v env d k =
     (fst (poll_result v env d k) \<noteq> None \<and> is_stable (snd (poll_result v env d k)))"

section \<open>Configuration values\<close>

text \<open>
  What \<open>json.load\<close> gives: a dictionary is a list of key-value pairs in insertion
  order, in which no key occurs twice (\<open>wf_json\<close>); numbers are exact rationals.
\<close>

datatype json =
    JNull
  | JBool bool
  | JNum rat
  | JStr string
  | JList "json list"
  | JDict "(string \<times> json) list"

fun wf_json :: "json \<Rightarrow> bool" where
  "wf_json (JList xs) = list_all wf_json xs"
| "wf_json (JDict kvs) = (distinct (map fst kvs) \<and> list_all (\<lambda>kv. wf_json (snd kv)) kvs)"
| "wf_json v = True"

definition wf_dict :: "(string \<times> json) list \<Rightarrow> bool" where
  "wf_dict kvs = wf_json (JDict kvs)"

text \<open>Truth value of a configuration value, as \<open>not x\<close> and \<open>if x\<close> take it.\<close>

fun truthy :: "json \<Rightarrow> bool" where
  "truthy JNull = False"
| "truthy (JBool b) = b"
| "truthy (JNum n) = (n \<noteq> 0)"
| "truthy (JStr s) = (s \<noteq> [])"
| "truthy (JList xs) = (xs \<noteq> [])"
| "truthy (JDict kvs) = (kvs \<noteq> [])"

text \<open>\<open>d.get(key, default)\<close> and \<open>d[key] = value\<close> on a dictionary.\<close>

definition dict_get :: "(string \<times> json) list \<Rightarrow> string \<Rightarrow> json \<Rightarrow> json" where
  "dict_get d key dflt = (case map_of d key of None \<Rightarrow> dflt | Some v \<Rightarrow> v)"

definition dict_set :: "string \<Rightarrow> json \<Rightarrow> (string \<times> json) list \<Rightarrow> (string \<times> json) list" where
  "dict_set key v d = AList.update key v d"

section \<open>core/config.py: the deep merge\<close>

text \<open>
  \<open>_deep_merge(base, override)\<close> changes \<open>base\<close> in place; the model returns the
  dictionary that \<open>base\<close> is afterwards. The loop goes through the items of \<open>override\<close>
  in order.
\<close>

function deep_merge :: "(string \<times> json) list \<Rightarrow> (string \<times> json) list \<Rightarrow> (string \<times> json) list" where
  "deep_merge base [] = base"
| "deep_merge base ((key, v) # override) =
     deep_merge
       (case (map_of base key, v) of
          (Some (JDict b), JDict ov) \<Rightarrow> dict_set key (JDict (deep_merge b ov)) base
        | _ \<Rightarrow> dict_set key v base)
       override"
  by pat_completeness auto
termination
  by (relation "measure (\<lambda>(base, override). size_list (size_prod (\<lambda>k. 0) size) override)")
     auto

text \<open>\<open>ConfigManager.get\<close> below the domain: follow a path of keys through nested dictionaries.\<close>

fun get_path :: "json \<Rightarrow> string list \<Rightarrow> json option" where
  "get_path current [] = Some current"
| "get_path (JDict d) (key # keys) =
     (case map_of d key of None \<Rightarrow> None | Some v \<Rightarrow> get_path v keys)"
| "get_path current (key # keys) = None"

section \<open>equipment/scales/manager.py\<close>

text \<open>
  \<open>ScaleManager(config)\<close>: the constructor stores the configuration, sets \<open>scale\<close> to
  \<open>None\<close> and calls \<open>_initialize_scale\<close>, whose exception leaves the constructor. The
  driver it builds is the vendor class with the assembled driver configuration. A
  non-string \<open>default_brand\<close> has no \<open>lower\<close>, a non-dictionary has no \<open>get\<close>
  (\<open>AttributeError\<close>), and \<open>update\<close> of a non-dictionary is taken as \<open>TypeError\<close>.
\<close>

definition SUPPORTED_BRANDS :: "(string \<times> brand) list" where
  "SUPPORTED_BRANDS = [(''toledo'', Toledo), (''filizola'', Filizola)]"

definition msg_unsupported_brand :: "string \<Rightarrow> string" where
  "msg_unsupported_brand b =
     ''Marca de balan'' @ [CHR 0xE7] @ ''a n'' @ [CHR 0xE3] @ ''o suportada: '' @ b"

definition dict_update :: "(string \<times> json) list \<Rightarrow> (string \<times> json) list \<Rightarrow> (string \<times> json) list" where
  "dict_update d other = foldl (\<lambda>acc kv. dict_set (fst kv) (snd kv) acc) d other"

definition initialize_scale ::
  "(string \<times> json) list \<Rightarrow> py_error + (brand \<times> (string \<times> json) list) option" where
  "initialize_scale config =
     (if \<not> truthy (dict_get config ''enabled'' (JBool False)) then Inr None
      else case dict_get config ''default_brand'' (JStr ''toledo'') of
             JStr b \<Rightarrow>
               (let brand = lower b
                in case map_of SUPPORTED_BRANDS brand of
                     None \<Rightarrow> Inl (EquipmentError (msg_unsupported_brand brand))
                   | Some scale_class \<Rightarrow>
                       (case dict_get config ''supported_brands'' (JDict []) of
                          JDict brands \<Rightarrow>
                            (case dict_get brands brand (JDict []) of
                               JDict scale_config \<Rightarrow>
                                 (case dict_get config ''connection'' (JDict []) of
                                    JDict connection \<Rightarrow>
                                      Inr (Some (scale_class, dict_update scale_config connection))
                                  | _ \<Rightarrow> Inl TypeError)
                             | _ \<Rightarrow> Inl AttributeError)
                        | _ \<Rightarrow> Inl AttributeError))
           | _ \<Rightarrow> Inl AttributeError)"


text \<open>
  The numeric substring that the parser of a vendor extracts from a response:
  \<open>weight_str\<close> of \<open>_parse_toledo_response\<close>, \<open>numbers\<close> of \<open>_parse_filizola_response\<close>.
\<close>

fun numeric_substring :: "brand \<Rightarrow> string \<Rightarrow> string" where
  "numeric_substring Toledo response = toledo_weight_str (filter isprintable response)"
| "numeric_substring Filizola response = filizola_numbers (filter isprintable response)"


text \<open>
  The number written by the digits \<open>ip\<close>, a point and the digits \<open>fp\<close>, as in
  \<open>00012.345\<close>.
\<close>

definition fixed_point_value :: "string \<Rightarrow> string \<Rightarrow> decimal" where
  "fixed_point_value ip fp =
     of_nat (digits_value ip) + of_nat (digits_value fp) / 10 ^ length fp"


text \<open>A scale that takes the same time and gives the same reply at every poll.\<close>

definition steady :: "nat \<times> serial_reply \<Rightarrow> nat \<Rightarrow> nat \<times> serial_reply" where
  "steady x k = x"


fun is_dict :: "json \<Rightarrow> bool" where
  "is_dict (JDict d) = True"
| "is_dict v = False"


section \<open>Cashier session: closing\<close>

text \<open>
  C10. A session that is not open (suspended or closed) cannot be closed:
  \<open>close_session\<close> raises \<open>ValueError\<close> and the session is exactly as it was, every
  field included (\<open>closing_cash\<close>, \<open>expected_cash\<close>, \<open>cash_difference\<close>, \<open>closed_at\<close>,
  \<open>closing_notes\<close> and \<open>status\<close> among them). A suspended session is such a session.
\<close>

theorem close_session_not_open:
  assumes "CashierSession.status s \<noteq> OPEN"
  shows "\<exists>msg. close_session closing notes now s = (Inl (ValueError msg), s)"
  using assms by (simp add: close_session_def can_close_def)

theorem close_session_not_open_witness:
  "CashierSession.status (suspend_session None (default_session 1 100 0)) = SUSPENDED
   \<and> (\<exists>msg. close_session 150 None 10 (suspend_session None (default_session 1 100 0))
         = (Inl (ValueError msg), suspend_session None (default_session 1 100 0)))"
proof -
  have h: "CashierSession.status (suspend_session None (default_session 1 100 0)) \<noteq> OPEN"
    by (simp add: suspend_session_def default_session_def)
  have "CashierSession.status (suspend_session None (default_session 1 100 0)) = SUSPENDED"
    by (simp add: suspend_session_def default_session_def)
  with close_session_not_open [OF h] show ?thesis by blast
qed

section \<open>Cashier session: the running totals\<close>

lemma bump_category_ok:
  "bump_category m d s = Inr s' \<Longrightarrow>
     category_sum s' = category_sum s + d \<and> total_sales s' = total_sales s
     \<and> sales_count s' = sales_count s"
  by (auto simp: bump_category_def category_sum_def set_total_cash_sales_def
      set_total_card_sales_def set_total_pix_sales_def set_total_other_sales_def
      split: if_splits)

lemma add_sale_ok:
  assumes "add_sale a m s = (Inr u, s')"
  shows "total_sales s' - category_sum s' = total_sales s - category_sum s
         \<and> sales_count s' = sales_count s + 1"
  using assms
  by (auto simp: add_sale_def set_total_sales_def set_sales_count_def category_sum_def
      split: if_splits sum.splits dest!: bump_category_ok)

lemma cancel_sale_ok:
  assumes "cancel_sale a m s = (Inr u, s')"
  shows "total_sales s' - category_sum s' = total_sales s - category_sum s
         \<and> sales_count s' = sales_count s - 1"
  using assms
  by (auto simp: cancel_sale_def set_total_sales_def set_sales_count_def
      set_cancelled_sales_count_def category_sum_def
      split: if_splits sum.splits dest!: bump_category_ok)

lemma do_call_ok:
  assumes "do_call c s = (Inr u, s')"
  shows "total_sales s' - category_sum s' = total_sales s - category_sum s
         \<and> sales_count s' = sales_count s + (if is_add c then 1 else - 1)"
  using assms add_sale_ok cancel_sale_ok by (cases c) auto

lemma run_calls_ok:
  "run_calls cs s = Some s' \<Longrightarrow>
     total_sales s' - category_sum s' = total_sales s - category_sum s
     \<and> sales_count s' = sales_count s + int (length (filter is_add cs))
          - int (length (filter (\<lambda>c. \<not> is_add c) cs))"
proof (induction cs arbitrary: s)
  case Nil
  then show ?case by simp
next
  case (Cons c cs)
  from Cons.prems obtain u s1
    where c: "do_call c s = (Inr u, s1)" and r: "run_calls cs s1 = Some s'"
    by (auto split: prod.splits sum.splits)
  from do_call_ok [OF c] Cons.IH [OF r] show ?case by (cases "is_add c") auto
qed

lemma run_calls_prefix:
  "run_calls (xs @ ys) s = Some s' \<Longrightarrow> \<exists>t. run_calls xs s = Some t"
  by (induction xs arbitrary: s) (auto split: prod.splits sum.splits)

text \<open>
  C3, as the code has it. Take any sequence of \<open>add_sale\<close> and \<open>cancel_sale\<close> calls on a
  freshly opened session in which every call returns (no assignment is refused by the
  \<open>ge=0\<close> bound of its field). Then after each of the calls, that is after the first
  \<open>n\<close> of them for every \<open>n\<close>, \<open>total_sales\<close> is the sum of the cash, card, pix and other
  totals, and \<open>sales_count\<close> is the number of \<open>add_sale\<close> calls made so far minus the
  number of \<open>cancel_sale\<close> calls made so far.
\<close>

theorem session_totals_invariant:
  assumes "run_calls cs (default_session u c now) = Some s" and "n \<le> length cs"
  shows "\<exists>t. run_calls (take n cs) (default_session u c now) = Some t
             \<and> total_sales t = category_sum t
             \<and> sales_count t = int (length (filter is_add (take n cs)))
                  - int (length (filter (\<lambda>c. \<not> is_add c) (take n cs)))"
proof -
  from assms(1)
  have "run_calls (take n cs @ drop n cs) (default_session u c now) = Some s" by simp
  then obtain t where t: "run_calls (take n cs) (default_session u c now) = Some t"
    using run_calls_prefix by blast
  from run_calls_ok [OF t] have "total_sales t = category_sum t"
    and "sales_count t = int (length (filter is_add (take n cs)))
                  - int (length (filter (\<lambda>c. \<not> is_add c) (take n cs)))"
    by (simp_all add: default_session_def category_sum_def)
  with t show ?thesis by blast
qed

theorem session_totals_invariant_witness:
  "run_calls [AddSale 10 ''cash'', AddSale 5 ''PIX'', CancelSale 10 ''Cash'']
      (default_session 1 100 0) \<noteq> None
   \<and> (\<exists>t. run_calls [AddSale 10 ''cash'', AddSale 5 ''PIX'', CancelSale 10 ''Cash'']
             (default_session 1 100 0) = Some t
          \<and> total_sales t = category_sum t \<and> sales_count t = 1)"
proof -
  have "run_calls [AddSale 10 ''cash'', AddSale 5 ''PIX'', CancelSale 10 ''Cash'']
      (default_session 1 100 0) \<noteq> None"
    by (simp add: add_sale_def cancel_sale_def set_total_sales_def set_sales_count_def
        set_cancelled_sales_count_def bump_category_def lower_def lower_char_def is_upper_def
        set_total_cash_sales_def set_total_pix_sales_def default_session_def)
  then obtain s
    where h: "run_calls [AddSale 10 ''cash'', AddSale 5 ''PIX'', CancelSale 10 ''Cash'']
      (default_session 1 100 0) = Some s"
    by blast
  from session_totals_invariant [OF h, of 3] h show ?thesis by simp
qed

text \<open>
  The claim as the specification words it covers every sequence of calls. A call that
  raises part of the way leaves the assignments it had made: cancelling a pix sale of 5
  in a session that holds one cash sale of 10 lowers \<open>total_sales\<close> to 5, then fails on
  \<open>total_pix_sales = -5\<close>, and the four category totals still add up to 10.
\<close>

theorem session_totals_counterexample:
  "fst (cancel_sale 5 ''pix'' (snd (add_sale 10 ''cash'' (default_session 1 100 0))))
     = Inl (ValidationError ''total_pix_sales'')
   \<and> total_sales (snd (cancel_sale 5 ''pix''
         (snd (add_sale 10 ''cash'' (default_session 1 100 0))))) = 5
   \<and> category_sum (snd (cancel_sale 5 ''pix''
         (snd (add_sale 10 ''cash'' (default_session 1 100 0))))) = 10"
  by (simp add: add_sale_def cancel_sale_def set_total_sales_def set_sales_count_def
      set_cancelled_sales_count_def bump_category_def lower_def lower_char_def is_upper_def
      set_total_cash_sales_def set_total_pix_sales_def default_session_def category_sum_def)

section \<open>Sale: the totals after a mutation\<close>

lemma calculate_totals_ok:
  assumes "calculate_totals s = (Inr u, s')"
  shows "totals_from_items s'"
  using assms
  by (auto simp: calculate_totals_def set_subtotal_def set_discount_amount_def
      set_tax_amount_def set_total_amount_def set_change_amount_def totals_from_items_def
      general_discount_def
      split: if_splits option.splits sum.splits)

text \<open>
  C4, as the code has it. Let a mutation of a sale (\<open>add_item\<close>, \<open>remove_item\<close>,
  \<open>clear_items\<close> or \<open>apply_discount\<close>) return, and let either its guard pass (so that it
  reaches \<open>calculate_totals\<close>) or the totals be the recomputed ones already. Then
  afterwards \<open>total_amount = subtotal - discount_amount + tax_amount\<close>, where \<open>subtotal\<close>
  is the sum of the items' prices, \<open>discount_amount\<close> the sum of the items' discounts
  plus \<open>subtotal * discount_percentage / 100\<close>, and \<open>tax_amount\<close> the sum of the items'
  taxes, all taken over the items the sale now has.
\<close>

theorem sale_totals_after_mutation:
  assumes "mutate m s = (Inr u, s')" and "recomputes m s \<or> totals_from_items s"
  shows "totals_from_items s'
         \<and> total_amount s' = subtotal s' - Sale.discount_amount s' + Sale.tax_amount s'"
proof -
  have "totals_from_items s'"
    using assms
    by (cases m)
       (auto simp: add_item_def remove_item_def clear_items_def apply_discount_def
         set_items_def set_discount_percentage_def
         split: if_splits sum.splits dest: calculate_totals_ok)
  then show ?thesis by (simp add: totals_from_items_def)
qed

theorem sale_totals_after_mutation_witness:
  "let s = snd (add_item \<lparr> product_id = 1, quantity = 1, weight = None, unit_price = 10,
                total_price = 10, discount_amount = 1 / 100, discount_percentage = None,
                tax_rate = None, tax_amount = None \<rparr> default_sale);
       s' = snd (mutate (ApplyDiscount 50) s)
   in fst (mutate (ApplyDiscount 50) s) = Inr () \<and> recomputes (ApplyDiscount 50) s
      \<and> totals_from_items s' \<and> total_amount s' = 499 / 100
      \<and> subtotal s' = 10 \<and> Sale.discount_amount s' = 501 / 100 \<and> Sale.tax_amount s' = 0"
proof -
  define s where "s = snd (add_item \<lparr> product_id = 1, quantity = 1, weight = None,
                unit_price = 10, total_price = 10, discount_amount = 1 / 100,
                discount_percentage = None, tax_rate = None, tax_amount = None \<rparr> default_sale)"
  define s' where "s' = snd (mutate (ApplyDiscount 50) s)"
  have r: "recomputes (ApplyDiscount 50) s" by simp
  have v: "fst (mutate (ApplyDiscount 50) s) = Inr ()"
      "total_amount s' = 499 / 100" "subtotal s' = 10"
      "Sale.discount_amount s' = 501 / 100" "Sale.tax_amount s' = 0"
    by (simp_all add: s_def s'_def default_sale_def add_item_def apply_discount_def
        calculate_totals_def set_subtotal_def set_discount_amount_def set_tax_amount_def
        set_total_amount_def set_change_amount_def set_discount_percentage_def
        in_percent_range_def sum_total_price_def sum_item_discount_def sum_item_tax_def)
  then have m: "mutate (ApplyDiscount 50) s = (Inr (), s')"
    by (simp add: s'_def prod_eq_iff)
  from sale_totals_after_mutation [OF m] r v show ?thesis
    unfolding s_def [symmetric] s'_def [symmetric] Let_def by simp
qed

text \<open>
  The claim as the specification words it covers every mutation. An item priced 10 with
  an item discount of 0.01 is accepted by \<open>SaleItem\<close>; after \<open>add_item\<close> of it,
  \<open>apply_discount(100)\<close> recomputes \<open>subtotal = 10\<close> and \<open>discount_amount = 10.01\<close>, and
  the assignment of \<open>total_amount = -0.01\<close> is refused (\<open>ge=0\<close>): \<open>total_amount\<close> keeps
  the 9.99 it had.
\<close>

theorem sale_totals_counterexample:
  "valid_item
     \<lparr> product_id = 1, quantity = 1, weight = None, unit_price = 10,
          total_price = 10, discount_amount = 1 / 100, discount_percentage = None,
          tax_rate = None, tax_amount = None \<rparr>
   \<and> fst (add_item
        \<lparr> product_id = 1, quantity = 1, weight = None, unit_price = 10,
          total_price = 10, discount_amount = 1 / 100, discount_percentage = None,
          tax_rate = None, tax_amount = None \<rparr>
        default_sale) = Inr ()
   \<and> apply_discount 100 (snd (add_item
        \<lparr> product_id = 1, quantity = 1, weight = None, unit_price = 10,
          total_price = 10, discount_amount = 1 / 100, discount_percentage = None,
          tax_rate = None, tax_amount = None \<rparr>
        default_sale))
     = (Inl (ValidationError ''total_amount''),
        \<lparr> items = [
          \<lparr> product_id = 1, quantity = 1, weight = None, unit_price = 10,
          total_price = 10, discount_amount = 1 / 100, discount_percentage = None,
          tax_rate = None, tax_amount = None \<rparr>],
          subtotal = 10, discount_amount = 1001 / 100, discount_percentage = Some 100,
          tax_amount = 0, total_amount = 999 / 100, amount_paid = 0, change_amount = 0 \<rparr>)
   \<and> (999 / 100 :: rat) \<noteq> 10 - 1001 / 100 + 0"
  by (simp add: default_sale_def add_item_def apply_discount_def
        calculate_totals_def set_subtotal_def set_discount_amount_def set_tax_amount_def
        set_total_amount_def set_change_amount_def set_discount_percentage_def
        in_percent_range_def sum_total_price_def sum_item_discount_def sum_item_tax_def
        valid_item_def expected_total_price_def)

section \<open>Scale drivers: facts about the parsers\<close>

lemma unsigned_decimal_has_digit:
  assumes "unsigned_decimal s = Some r"
  shows "\<exists>c\<in>set s. is_decimal_digit c"
proof (cases "takeWhile is_decimal_digit s = []")
  case False
  then obtain c where "c \<in> set (takeWhile is_decimal_digit s)"
    by (cases "takeWhile is_decimal_digit s") auto
  then show ?thesis by (auto dest: set_takeWhileD)
next
  case True
  with assms obtain c fp
    where r: "dropWhile is_decimal_digit s = c # fp" and ne: "fp \<noteq> []"
      and fp: "list_all is_decimal_digit fp"
    by (auto simp: unsigned_decimal_def Let_def split: list.splits if_splits)
  from ne obtain x where x: "x \<in> set fp" by (cases fp) auto
  with fp have "is_decimal_digit x" by (simp add: list_all_iff)
  moreover from x r have "x \<in> set (dropWhile is_decimal_digit s)" by simp
  then have "x \<in> set s" by (rule set_dropWhileD)
  ultimately show ?thesis by blast
qed

lemma Decimal_has_digit:
  assumes "Decimal s = Some r"
  shows "\<exists>c\<in>set s. is_decimal_digit c"
proof (cases s)
  case Nil
  with assms show ?thesis by (simp add: Decimal_def)
next
  case (Cons c t)
  show ?thesis
  proof (cases "c = CHR ''-'' \<or> c = CHR ''+''")
    case True
    with assms Cons obtain r' where "unsigned_decimal t = Some r'"
      by (auto simp: Decimal_def split: if_splits)
    from unsigned_decimal_has_digit [OF this] Cons show ?thesis by auto
  next
    case False
    with assms Cons have "unsigned_decimal s = Some r" by (simp add: Decimal_def)
    from unsigned_decimal_has_digit [OF this] show ?thesis .
  qed
qed

lemma set_replace_kg: "set (replace_kg s) \<subseteq> set s"
  by (induction s rule: replace_kg.induct) auto

lemma set_last_field: "set (last_field s) \<subseteq> set s"
  by (auto simp: last_field_def dest: set_takeWhileD)

lemma set_strip: "set (strip s) \<subseteq> set s"
  by (auto simp: strip_def dest!: set_dropWhileD)

lemma set_lstrip: "set (lstrip cs s) \<subseteq> set s"
  by (auto simp: lstrip_def dest!: set_dropWhileD)

lemma toledo_weight_str_subset: "set (toledo_weight_str s) \<subseteq> set s"
  using set_replace_kg [of "last_field s"] set_last_field [of s]
  by (auto simp: toledo_weight_str_def)

lemma filizola_numbers_subset: "set (filizola_numbers s) \<subseteq> set s"
  using set_lstrip [of "''SW+-''" s] by (auto simp: filizola_numbers_def)

lemma parse_toledo_has_digit:
  assumes "parse_toledo_response response d = (Some w, d')"
  shows "\<exists>c\<in>set response. is_decimal_digit c"
proof -
  from assms obtain w' where "Decimal (toledo_weight_str (filter isprintable response)) = Some w'"
    by (auto simp: parse_toledo_response_def Let_def split: if_splits option.splits)
  from Decimal_has_digit [OF this] toledo_weight_str_subset [of "filter isprintable response"]
  show ?thesis by auto
qed

lemma parse_filizola_has_digit:
  assumes "parse_filizola_response response d = (Some w, d')"
  shows "\<exists>c\<in>set response. is_decimal_digit c"
proof -
  from assms obtain w' where "Decimal (filizola_numbers (filter isprintable response)) = Some w'"
    by (auto simp: parse_filizola_response_def Let_def split: if_splits option.splits)
  from Decimal_has_digit [OF this] filizola_numbers_subset [of "filter isprintable response"]
  show ?thesis by auto
qed

lemma parse_response_has_digit:
  assumes "parse_response v response d = (Some w, d')"
  shows "\<exists>c\<in>set response. is_decimal_digit c"
  using assms parse_toledo_has_digit parse_filizola_has_digit by (cases v) auto

lemma parse_response_state:
  "serial_connection (snd (parse_response v r d)) = serial_connection d
   \<and> BaseScale.status (snd (parse_response v r d)) = BaseScale.status d
   \<and> last_error (snd (parse_response v r d)) = last_error d
   \<and> last_weight (snd (parse_response v r d)) = last_weight d"
  by (cases v)
     (auto simp: parse_toledo_response_def parse_filizola_response_def Let_def
        split: option.splits)

lemma parse_response_weight_indep:
  "fst (parse_response v r d) = fst (parse_response v r d0)"
  by (cases v)
     (auto simp: parse_toledo_response_def parse_filizola_response_def Let_def
        split: option.splits)

lemma msg_invalid_response_nonempty: "msg_invalid_response \<noteq> []"
  by (simp add: msg_invalid_response_def)

lemma read_weight_no_weight:
  assumes "is_connected d"
    and "strip raw = [] \<or> fst (parse_response v (strip raw) (d\<lparr>BaseScale.status := BUSY\<rparr>)) = None"
  shows "fst (read_weight v (Line raw) d) = None
         \<and> last_error (snd (read_weight v (Line raw) d)) = Some msg_invalid_response
         \<and> BaseScale.status (snd (read_weight v (Line raw) d)) = ERROR
         \<and> last_weight (snd (read_weight v (Line raw) d)) = last_weight d"
proof (cases "strip raw = []")
  case True
  with assms(1) show ?thesis
    by (simp add: read_weight_def set_error_def leave_busy_def)
next
  case False
  with assms(2) have n: "fst (parse_response v (strip raw) (d\<lparr>BaseScale.status := BUSY\<rparr>)) = None"
    by simp
  obtain d2 where p: "parse_response v (strip raw) (d\<lparr>BaseScale.status := BUSY\<rparr>) = (None, d2)"
    using n by (cases "parse_response v (strip raw) (d\<lparr>BaseScale.status := BUSY\<rparr>)") auto
  from parse_response_state [of v "strip raw" "d\<lparr>BaseScale.status := BUSY\<rparr>"] p
  have "last_weight d2 = last_weight d" by simp
  with assms(1) False p show ?thesis
    by (simp add: read_weight_def set_error_def leave_busy_def)
qed

section \<open>Scale drivers: failed reads\<close>

text \<open>
  C1, as the code has it. A connected driver receives a malformed response: a line with
  no decimal digit in it, the empty line included. Then \<open>read_weight\<close> returns \<open>None\<close>,
  the last error is the non-empty message \<open>Resposta invalida da balanca\<close>, and
  the status is \<open>ERROR\<close>: \<open>set_error\<close> sets it, and the \<open>finally\<close> clause resets only
  \<open>BUSY\<close>. When the transport fails (a timeout or any other exception) the result is
  \<open>None\<close>, the last error is set and the status is \<open>ERROR\<close> as well.
\<close>

theorem read_weight_malformed:
  assumes "is_connected d"
  shows "((\<forall>c\<in>set raw. \<not> is_decimal_digit c) \<longrightarrow>
            fst (read_weight v (Line raw) d) = None
            \<and> last_error (snd (read_weight v (Line raw) d)) = Some msg_invalid_response
            \<and> msg_invalid_response \<noteq> []
            \<and> BaseScale.status (snd (read_weight v (Line raw) d)) = ERROR)
         \<and> fst (read_weight v SerialTimeoutException d) = None
         \<and> last_error (snd (read_weight v SerialTimeoutException d)) = Some msg_timeout
         \<and> msg_timeout \<noteq> []
         \<and> BaseScale.status (snd (read_weight v SerialTimeoutException d)) = ERROR
         \<and> fst (read_weight v (OtherException e) d) = None
         \<and> last_error (snd (read_weight v (OtherException e) d))
              = Some (''Erro na leitura: '' @ e)
         \<and> BaseScale.status (snd (read_weight v (OtherException e) d)) = ERROR"
proof -
  have a: "(\<forall>c\<in>set raw. \<not> is_decimal_digit c) \<longrightarrow>
            fst (read_weight v (Line raw) d) = None
            \<and> last_error (snd (read_weight v (Line raw) d)) = Some msg_invalid_response
            \<and> msg_invalid_response \<noteq> []
            \<and> BaseScale.status (snd (read_weight v (Line raw) d)) = ERROR"
  proof
    assume nd: "\<forall>c\<in>set raw. \<not> is_decimal_digit c"
    have "fst (parse_response v (strip raw) (d\<lparr>BaseScale.status := BUSY\<rparr>)) = None"
    proof (rule ccontr)
      assume "fst (parse_response v (strip raw) (d\<lparr>BaseScale.status := BUSY\<rparr>)) \<noteq> None"
      then obtain w d2
        where "parse_response v (strip raw) (d\<lparr>BaseScale.status := BUSY\<rparr>) = (Some w, d2)"
        by (cases "parse_response v (strip raw) (d\<lparr>BaseScale.status := BUSY\<rparr>)") auto
      from parse_response_has_digit [OF this] set_strip [of raw] nd show False by auto
    qed
    with read_weight_no_weight [OF assms, of raw v] msg_invalid_response_nonempty
    show "fst (read_weight v (Line raw) d) = None
           \<and> last_error (snd (read_weight v (Line raw) d)) = Some msg_invalid_response
           \<and> msg_invalid_response \<noteq> []
           \<and> BaseScale.status (snd (read_weight v (Line raw) d)) = ERROR"
      by simp
  qed
  have b: "fst (read_weight v SerialTimeoutException d) = None
         \<and> last_error (snd (read_weight v SerialTimeoutException d)) = Some msg_timeout
         \<and> msg_timeout \<noteq> []
         \<and> BaseScale.status (snd (read_weight v SerialTimeoutException d)) = ERROR"
    using assms by (simp add: read_weight_def set_error_def leave_busy_def msg_timeout_def)
  have c: "fst (read_weight v (OtherException e) d) = None
         \<and> last_error (snd (read_weight v (OtherException e) d))
              = Some (''Erro na leitura: '' @ e)
         \<and> BaseScale.status (snd (read_weight v (OtherException e) d)) = ERROR"
    using assms by (simp add: read_weight_def set_error_def leave_busy_def)
  from a b c show ?thesis by blast
qed

theorem read_weight_malformed_witness:
  "is_connected (new_scale\<lparr>serial_connection := Some True, BaseScale.status := CONNECTED\<rparr>)
   \<and> \<not> list_ex is_decimal_digit ''ST,GS,kg''
   \<and> fst (read_weight Toledo (Line ''ST,GS,kg'')
            (new_scale\<lparr>serial_connection := Some True, BaseScale.status := CONNECTED\<rparr>)) = None
   \<and> BaseScale.status (snd (read_weight Toledo (Line ''ST,GS,kg'')
            (new_scale\<lparr>serial_connection := Some True, BaseScale.status := CONNECTED\<rparr>))) = ERROR"
proof -
  have c: "is_connected (new_scale\<lparr>serial_connection := Some True, BaseScale.status := CONNECTED\<rparr>)"
    by (simp add: is_connected_def new_scale_def)
  have n: "\<forall>c\<in>set ''ST,GS,kg''. \<not> is_decimal_digit c"
    by (simp add: is_decimal_digit_def)
  have n': "\<not> list_ex is_decimal_digit ''ST,GS,kg''"
    by (simp add: is_decimal_digit_def)
  from read_weight_malformed [OF c, of "''ST,GS,kg''" Toledo "[]"] c n n' show ?thesis
    by blast
qed

text \<open>
  The claim as the specification words it has the status back at \<open>CONNECTED\<close> after a
  malformed response. For the empty line on a connected driver the status is \<open>ERROR\<close>.
\<close>

theorem read_weight_status_counterexample:
  "is_connected (new_scale\<lparr>serial_connection := Some True, BaseScale.status := CONNECTED\<rparr>)
   \<and> read_weight Filizola (Line '''')
        (new_scale\<lparr>serial_connection := Some True, BaseScale.status := CONNECTED\<rparr>)
      = (None, new_scale\<lparr>serial_connection := Some True, BaseScale.status := ERROR,
                          last_error := Some msg_invalid_response\<rparr>)
   \<and> ERROR \<noteq> CONNECTED"
  by (simp add: is_connected_def new_scale_def read_weight_def strip_def set_error_def
      leave_busy_def)

lemma parse_response_empty_numeric:
  "numeric_substring v response = [] \<Longrightarrow> fst (parse_response v response d) = None"
  by (cases v) (auto simp: parse_toledo_response_def parse_filizola_response_def Let_def)

text \<open>
  C8. When the numeric substring extracted from a response is empty, \<open>read_weight\<close>
  returns \<open>None\<close>, never the weight zero: the read has failed (status \<open>ERROR\<close>, an
  error recorded) and the last weight is the one of before.
\<close>

theorem empty_numeric_is_failed_read:
  assumes "numeric_substring v (strip raw) = []"
  shows "fst (read_weight v (Line raw) d) = None
         \<and> fst (read_weight v (Line raw) d) \<noteq> Some 0
         \<and> last_weight (snd (read_weight v (Line raw) d)) = last_weight d
         \<and> BaseScale.status (snd (read_weight v (Line raw) d)) = ERROR
         \<and> last_error (snd (read_weight v (Line raw) d)) \<noteq> None"
proof (cases "is_connected d")
  case True
  from assms have "fst (parse_response v (strip raw) (d\<lparr>BaseScale.status := BUSY\<rparr>)) = None"
    by (rule parse_response_empty_numeric)
  with read_weight_no_weight [OF True, of raw v] show ?thesis by simp
next
  case False
  then show ?thesis by (simp add: read_weight_def set_error_def)
qed

theorem empty_numeric_is_failed_read_witness:
  "numeric_substring Filizola (strip ''S+ kg'') = []
   \<and> fst (read_weight Filizola (Line ''S+ kg'')
        (new_scale\<lparr>serial_connection := Some True, BaseScale.status := CONNECTED\<rparr>)) = None"
proof -
  have h: "numeric_substring Filizola (strip ''S+ kg'') = []"
    by (simp add: strip_def isspace_def isprintable_def filizola_numbers_def lstrip_def isdigit_def)
  from empty_numeric_is_failed_read [OF h] h show ?thesis by simp
qed

section \<open>Scale drivers: tare and zero\<close>

lemma read_weight_some:
  assumes "read_weight v reply d = (Some w, d')"
  shows "is_connected d \<and> is_connected d' \<and> last_weight d' = Some w
         \<and> (\<exists>raw. reply = Line raw \<and> strip raw \<noteq> []
               \<and> fst (parse_response v (strip raw) (d\<lparr>BaseScale.status := BUSY\<rparr>)) = Some w)"
proof -
  from assms have c: "is_connected d"
    by (auto simp: read_weight_def split: if_splits)
  from assms c obtain raw where r: "reply = Line raw"
    by (cases reply) (auto simp: read_weight_def Let_def)
  from assms c r have ne: "strip raw \<noteq> []"
    by (auto simp: read_weight_def Let_def split: if_splits)
  obtain x d2 where p: "parse_response v (strip raw) (d\<lparr>BaseScale.status := BUSY\<rparr>) = (x, d2)"
    by (cases "parse_response v (strip raw) (d\<lparr>BaseScale.status := BUSY\<rparr>)")
  from assms c r ne p have x: "x = Some w"
    and d': "d' = leave_busy (d2\<lparr>last_weight := Some w, BaseScale.status := CONNECTED\<rparr>)"
    by (auto simp: read_weight_def Let_def split: option.splits)
  from parse_response_state [of v "strip raw" "d\<lparr>BaseScale.status := BUSY\<rparr>"] p
  have "serial_connection d2 = serial_connection d" by simp
  with c d' have "is_connected d'" "last_weight d' = Some w"
    by (auto simp: is_connected_def leave_busy_def split: option.splits)
  with c r ne p x show ?thesis by simp
qed

lemma read_weight_again:
  assumes "read_weight v reply d = (Some w, d')"
  shows "fst (read_weight v reply d') = Some w"
proof -
  from read_weight_some [OF assms] obtain raw
    where c: "is_connected d'" and r: "reply = Line raw" and ne: "strip raw \<noteq> []"
      and p: "fst (parse_response v (strip raw) (d\<lparr>BaseScale.status := BUSY\<rparr>)) = Some w"
    by blast
  from p parse_response_weight_indep [of v "strip raw" "d'\<lparr>BaseScale.status := BUSY\<rparr>"
      "d\<lparr>BaseScale.status := BUSY\<rparr>"]
  have "fst (parse_response v (strip raw) (d'\<lparr>BaseScale.status := BUSY\<rparr>)) = Some w" by simp
  then obtain d2 where "parse_response v (strip raw) (d'\<lparr>BaseScale.status := BUSY\<rparr>) = (Some w, d2)"
    by (cases "parse_response v (strip raw) (d'\<lparr>BaseScale.status := BUSY\<rparr>)") auto
  with c r ne show ?thesis by (simp add: read_weight_def Let_def)
qed

text \<open>
  C5. When \<open>tare\<close> returns true, the reading it took right after the tare command to
  verify it is a weight less than 0.010 away from zero; that weight is the last weight
  of the driver, and a \<open>read_weight\<close> that follows at once and gets the same line from
  the scale returns it again. So \<open>tare\<close> never reports success on a verification
  reading more than 0.010 from zero. \<open>zero\<close> on the same driver returns true without
  reading anything back.
\<close>

theorem tare_verified:
  assumes "tare v written reply d = (True, d')"
  shows "\<exists>w. read_weight v reply d = (Some w, d') \<and> \<bar>w\<bar> < 10 / 1000
             \<and> last_weight d' = Some w
             \<and> fst (read_weight v reply d') = Some w
             \<and> zero v None d = (True, d)"
proof -
  from assms have c: "is_connected d" and wr: "written = None"
    by (auto simp: tare_def split: if_splits option.splits)
  obtain x d1 where rw: "read_weight v reply d = (x, d1)"
    by (cases "read_weight v reply d")
  from assms c wr rw obtain w where x: "x = Some w" and small: "\<bar>w\<bar> < 10 / 1000" and d1: "d1 = d'"
    by (auto simp: tare_def split: if_splits option.splits)
  from rw x d1 have rw': "read_weight v reply d = (Some w, d')" by simp
  from read_weight_some [OF rw'] read_weight_again [OF rw'] small rw' c
  show ?thesis by (auto simp: zero_def)
qed

theorem tare_verified_witness:
  "tare Filizola None (Line ''S000.005'')
      (new_scale\<lparr>serial_connection := Some True, BaseScale.status := CONNECTED\<rparr>)
    = (True, new_scale\<lparr>serial_connection := Some True, BaseScale.status := CONNECTED,
                       last_weight := Some (5 / 1000), is_stable := True\<rparr>)
   \<and> (\<exists>w. \<bar>w\<bar> < 10 / 1000
          \<and> fst (read_weight Filizola (Line ''S000.005'')
               (new_scale\<lparr>serial_connection := Some True, BaseScale.status := CONNECTED,
                       last_weight := Some (5 / 1000), is_stable := True\<rparr>)) = Some (w::rat))"
proof -
  have h: "tare Filizola None (Line ''S000.005'')
      (new_scale\<lparr>serial_connection := Some True, BaseScale.status := CONNECTED\<rparr>)
    = (True, new_scale\<lparr>serial_connection := Some True, BaseScale.status := CONNECTED,
                       last_weight := Some (5 / 1000), is_stable := True\<rparr>)"
    by (simp add: tare_def read_weight_def new_scale_def is_connected_def strip_def isspace_def
        parse_filizola_response_def isprintable_def filizola_numbers_def lstrip_def isdigit_def
        Decimal_def unsigned_decimal_def is_decimal_digit_def digits_value_def digit_value_def
        leave_busy_def)
  from tare_verified [OF h] h show ?thesis by blast
qed

section \<open>Scale drivers: well-formed responses\<close>

lemma digit_facts:
  assumes "is_decimal_digit c"
  shows "isprintable c" "isdigit c" "\<not> isspace c" "lower_char c = c"
    "c \<noteq> CHR '',''" "c \<noteq> CHR ''k''" "c \<noteq> CHR ''S''" "c \<noteq> CHR ''W''"
    "c \<noteq> CHR ''+''" "c \<noteq> CHR ''-''" "c \<noteq> CHR ''.''" "c \<noteq> CHR ''b''"
  using assms
  by (auto simp: is_decimal_digit_def isprintable_def isdigit_def isspace_def lower_char_def
      is_upper_def Let_def)

lemma strip_id:
  assumes "s \<noteq> []" "\<not> isspace (hd s)" "\<not> isspace (last s)"
  shows "strip s = s"
proof -
  from assms(1,2) have a: "dropWhile isspace s = s" by (cases s) auto
  from assms(1,3) have "\<not> isspace (hd (rev s))" by (simp add: hd_rev)
  with assms(1) have "dropWhile isspace (rev s) = rev s" by (cases "rev s") auto
  with a show ?thesis by (simp add: strip_def)
qed

lemma contains_set: "contains sub s \<Longrightarrow> set sub \<subseteq> set s"
proof (induction s)
  case Nil
  then show ?case by simp
next
  case (Cons c s)
  then show ?case using set_mono_prefix [of sub "c # s"] by auto
qed

lemma prefix_contains: "prefix sub s \<Longrightarrow> contains sub s"
  by (cases s) auto

lemma contains_append: "contains sub (pre @ sub @ post)"
proof (induction pre)
  case Nil
  have "prefix sub (sub @ post)" by simp
  then show ?case by (simp add: prefix_contains)
next
  case (Cons a pre)
  then show ?case by simp
qed

lemma last_field_after_comma:
  assumes "CHR '','' \<notin> set t"
  shows "last_field (pre @ CHR '','' # t) = t"
proof -
  from assms have "\<And>x. x \<in> set (rev t) \<Longrightarrow> x \<noteq> CHR '',''" by auto
  then have "takeWhile (\<lambda>c. c \<noteq> CHR '','') (rev t @ CHR '','' # rev pre)
      = rev t @ takeWhile (\<lambda>c. c \<noteq> CHR '','') (CHR '','' # rev pre)"
    by (rule takeWhile_append2)
  then have "takeWhile (\<lambda>c. c \<noteq> CHR '','') (rev t @ CHR '','' # rev pre) = rev t"
    by simp
  then show ?thesis by (simp add: last_field_def)
qed

lemma replace_kg_suffix:
  assumes "CHR ''k'' \<notin> set xs"
  shows "replace_kg (xs @ ''kg'') = xs"
  using assms
proof (induction xs)
  case Nil
  then show ?case by simp
next
  case (Cons x xs)
  then obtain b s where "xs @ ''kg'' = b # s" by (cases "xs @ ''kg''") auto
  with Cons show ?case by auto
qed

lemma unsigned_decimal_fixed:
  assumes "ip \<noteq> []" "list_all is_decimal_digit ip" "list_all is_decimal_digit fp"
  shows "unsigned_decimal (ip @ CHR ''.'' # fp) = Some (fixed_point_value ip fp)"
proof -
  from assms(2) have ip: "\<And>x. x \<in> set ip \<Longrightarrow> is_decimal_digit x" by (simp add: list_all_iff)
  have nd: "\<not> is_decimal_digit CHR ''.''" by (simp add: is_decimal_digit_def)
  from ip nd have t: "takeWhile is_decimal_digit (ip @ CHR ''.'' # fp) = ip"
    by (simp add: takeWhile_append2)
  from ip nd have d: "dropWhile is_decimal_digit (ip @ CHR ''.'' # fp) = CHR ''.'' # fp"
    by (simp add: dropWhile_append2)
  from t d assms show ?thesis
    by (simp add: unsigned_decimal_def fixed_point_value_def)
qed

lemma Decimal_fixed:
  assumes "ip \<noteq> []" "list_all is_decimal_digit ip" "list_all is_decimal_digit fp"
  shows "Decimal (ip @ CHR ''.'' # fp) = Some (fixed_point_value ip fp)"
    and "Decimal (CHR ''+'' # ip @ CHR ''.'' # fp) = Some (fixed_point_value ip fp)"
    and "Decimal (CHR ''-'' # ip @ CHR ''.'' # fp) = Some (- fixed_point_value ip fp)"
proof -
  from assms(1) obtain c r where c: "ip = c # r" by (cases ip) auto
  with assms(2) have "is_decimal_digit c" by simp
  then have "c \<noteq> CHR ''+''" "c \<noteq> CHR ''-''" by (auto dest: digit_facts)
  with c unsigned_decimal_fixed [OF assms]
  show "Decimal (ip @ CHR ''.'' # fp) = Some (fixed_point_value ip fp)"
    by (simp add: Decimal_def)
  from unsigned_decimal_fixed [OF assms]
  show "Decimal (CHR ''+'' # ip @ CHR ''.'' # fp) = Some (fixed_point_value ip fp)"
    and "Decimal (CHR ''-'' # ip @ CHR ''.'' # fp) = Some (- fixed_point_value ip fp)"
    by (simp_all add: Decimal_def)
qed

lemma not_contains_hd:
  assumes "c \<notin> set s" "c \<in> set sub"
  shows "contains sub s = False"
  using assms contains_set [of sub s] by auto

lemma digits_only:
  assumes "list_all is_decimal_digit ip"
  shows "\<forall>c\<in>set ip. isprintable c" "\<forall>c\<in>set ip. isdigit c"
    "CHR '','' \<notin> set ip" "CHR ''k'' \<notin> set ip" "CHR ''S'' \<notin> set ip" "CHR ''b'' \<notin> set ip"
    "map lower_char ip = ip"
proof -
  from assms have d: "\<And>c. c \<in> set ip \<Longrightarrow> is_decimal_digit c" by (simp add: list_all_iff)
  show "\<forall>c\<in>set ip. isprintable c" "\<forall>c\<in>set ip. isdigit c"
    using d digit_facts(1,2) by blast+
  show "CHR '','' \<notin> set ip" "CHR ''k'' \<notin> set ip" "CHR ''S'' \<notin> set ip" "CHR ''b'' \<notin> set ip"
    using d digit_facts(5,6,7,12) by blast+
  show "map lower_char ip = ip"
    using d digit_facts(4) by (simp add: map_idI)
qed

lemma char_evals:
  "isprintable CHR ''.''" "isprintable CHR ''+''" "isprintable CHR ''-''" "isprintable CHR '',''"
  "isprintable CHR ''k''" "isprintable CHR ''g''" "isprintable CHR ''S''" "isprintable CHR ''T''"
  "isprintable CHR ''U''" "isprintable CHR ''G''" "isprintable CHR ''N''" "isprintable CHR ''W''"
  "\<not> isspace CHR ''S''" "\<not> isspace CHR ''U''" "\<not> isspace CHR ''g''" "\<not> isspace CHR ''W''"
  "\<not> isspace CHR ''+''" "\<not> isspace CHR ''-''"
  "lower_char CHR ''S'' = CHR ''s''" "lower_char CHR ''T'' = CHR ''t''"
  "lower_char CHR ''U'' = CHR ''u''" "lower_char CHR ''G'' = CHR ''g''"
  "lower_char CHR ''N'' = CHR ''n''" "lower_char CHR ''W'' = CHR ''w''"
  "lower_char CHR '','' = CHR '',''" "lower_char CHR ''+'' = CHR ''+''"
  "lower_char CHR ''-'' = CHR ''-''" "lower_char CHR ''.'' = CHR ''.''"
  "lower_char CHR ''k'' = CHR ''k''" "lower_char CHR ''g'' = CHR ''g''"
  by (simp_all add: isprintable_def isspace_def lower_char_def is_upper_def)

lemma toledo_number:
  assumes "ip \<noteq> []" "list_all is_decimal_digit ip" "list_all is_decimal_digit fp"
    and "sg \<in> {'''', ''+'', ''-''}" and "\<forall>c\<in>set pre. isprintable c"
  shows "parse_toledo_response (pre @ CHR '','' # sg @ ip @ CHR ''.'' # fp @ ''kg'') d
         = (Some ((if sg = ''-'' then - 1 else 1) * fixed_point_value ip fp),
            d\<lparr>is_stable :=
                contains ''ST'' (pre @ CHR '','' # sg @ ip @ CHR ''.'' # fp @ ''kg'')
                \<or> contains ''stable''
                     (lower (pre @ CHR '','' # sg @ ip @ CHR ''.'' # fp @ ''kg''))\<rparr>)"
proof -
  define num where "num = sg @ ip @ CHR ''.'' # fp"
  define body where "body = pre @ CHR '','' # num @ ''kg''"
  note i = digits_only [OF assms(2)] and f = digits_only [OF assms(3)]
  have sgp: "\<forall>c\<in>set sg. isprintable c" using assms(4) by (auto simp: char_evals)
  have P: "filter isprintable body = body"
    using i(1) f(1) sgp assms(5) by (simp add: body_def num_def char_evals)
  have K: "contains ''kg'' body"
    using contains_append [of "''kg''" "pre @ CHR '','' # num" "[]"] by (simp add: body_def)
  have nc: "CHR '','' \<notin> set (num @ ''kg'')"
    using i(3) f(3) assms(4) by (auto simp: num_def)
  have L: "last_field body = num @ ''kg''"
    using last_field_after_comma [OF nc, of pre] by (simp add: body_def)
  have nk: "CHR ''k'' \<notin> set num" using i(4) f(4) assms(4) by (auto simp: num_def)
  have R: "replace_kg (num @ ''kg'') = num" by (rule replace_kg_suffix [OF nk])
  have F: "filter (\<lambda>c. isdigit c \<or> c \<in> set ''.-+'') num = num"
    using i(2) f(2) assms(4) by (auto simp: num_def)
  have W: "toledo_weight_str body = num"
    by (simp only: toledo_weight_str_def L R F)
  have D: "Decimal num = Some ((if sg = ''-'' then - 1 else 1) * fixed_point_value ip fp)"
    using assms(4) Decimal_fixed [OF assms(1-3)] by (auto simp: num_def)
  have ne: "num \<noteq> []" by (simp add: num_def)
  have "parse_toledo_response body d
         = (Some ((if sg = ''-'' then - 1 else 1) * fixed_point_value ip fp),
            d\<lparr>is_stable := contains ''ST'' body \<or> contains ''stable'' (lower body)\<rparr>)"
    using K ne by (simp add: parse_toledo_response_def Let_def P W D del: contains.simps)
  then show ?thesis by (simp only: body_def num_def append_assoc append_Cons)
qed

lemma toledo_stability:
  assumes "list_all is_decimal_digit ip" "list_all is_decimal_digit fp"
    and "st \<in> {''ST'', ''US''}" "md \<in> {''GS'', ''NT''}" "sg \<in> {'''', ''+'', ''-''}"
  shows "(contains ''ST'' (st @ CHR '','' # md @ CHR '','' # sg @ ip @ CHR ''.'' # fp @ ''kg'')
          \<or> contains ''stable''
               (lower (st @ CHR '','' # md @ CHR '','' # sg @ ip @ CHR ''.'' # fp @ ''kg'')))
         = (st = ''ST'')"
proof -
  note i = digits_only [OF assms(1)] and f = digits_only [OF assms(2)]
  let ?tail = "ip @ CHR ''.'' # fp @ ''kg''"
  have S: "contains ''ST'' ?tail = False"
    by (rule not_contains_hd [of "CHR ''S''"]) (use i(5) f(5) in auto)
  have B: "CHR ''b'' \<notin> set (lower (st @ CHR '','' # md @ CHR '','' # sg @ ?tail))"
    using assms(3-5) i(6,7) f(6,7) by (auto simp: lower_def char_evals)
  have T: "contains ''stable'' (lower (st @ CHR '','' # md @ CHR '','' # sg @ ?tail)) = False"
    by (rule not_contains_hd [OF B]) simp
  have "contains ''ST'' (st @ CHR '','' # md @ CHR '','' # sg @ ?tail) = (st = ''ST'')"
    using assms(3-5) S by auto
  with T show ?thesis by simp
qed

lemma filizola_number:
  assumes "ip \<noteq> []" "list_all is_decimal_digit ip" "list_all is_decimal_digit fp"
    and "pf \<in> {'''', ''S'', ''W''}" "sg \<in> {'''', ''+'', ''-''}"
  shows "parse_filizola_response (pf @ sg @ ip @ CHR ''.'' # fp) d
         = (Some (fixed_point_value ip fp), d\<lparr>is_stable := (pf = ''S'')\<rparr>)"
proof -
  define tail where "tail = ip @ CHR ''.'' # fp"
  define body where "body = pf @ sg @ tail"
  note i = digits_only [OF assms(2)] and f = digits_only [OF assms(3)]
  from assms(1) obtain c r where c: "ip = c # r" by (cases ip) auto
  with assms(2) have cd: "is_decimal_digit c" by simp
  have P: "filter isprintable body = body"
    using i(1) f(1) assms(4,5) by (auto simp: body_def tail_def char_evals)
  have ns: "c \<notin> set ''SW+-''" using digit_facts(7,8,9,10) [OF cd] by simp
  have LS: "lstrip ''SW+-'' body = tail"
    using assms(4,5) ns c by (auto simp: lstrip_def body_def tail_def)
  have F: "filter (\<lambda>c. isdigit c \<or> c = CHR ''.'') tail = tail"
    using i(2) f(2) by (auto simp: tail_def)
  have N: "filizola_numbers body = tail"
    by (simp only: filizola_numbers_def LS F)
  have D: "Decimal tail = Some (fixed_point_value ip fp)"
    using Decimal_fixed(1) [OF assms(1-3)] by (simp add: tail_def)
  have B: "CHR ''b'' \<notin> set (lower body)"
    using assms(4,5) i(6,7) f(6,7) by (auto simp: lower_def body_def tail_def char_evals)
  have T: "contains ''stable'' (lower body) = False"
    by (rule not_contains_hd [OF B]) simp
  have S: "prefix ''S'' body = (pf = ''S'')"
    using assms(4,5) c digit_facts(7) [OF cd] by (auto simp: body_def tail_def)
  have ne: "tail \<noteq> []" by (simp add: tail_def)
  have "parse_filizola_response body d
         = (Some (fixed_point_value ip fp), d\<lparr>is_stable := (pf = ''S'')\<rparr>)"
    using ne by (simp add: parse_filizola_response_def Let_def P N D T S)
  then show ?thesis by (simp only: body_def tail_def append_assoc append_Cons)
qed

lemma read_weight_parsed:
  assumes "is_connected d" "strip raw = raw" "raw \<noteq> []"
    and "parse_response v raw (d\<lparr>BaseScale.status := BUSY\<rparr>) = (Some w, d2)"
  shows "read_weight v (Line raw) d
         = (Some w, d2\<lparr>last_weight := Some w, BaseScale.status := CONNECTED\<rparr>)"
  using assms by (simp add: read_weight_def Let_def leave_busy_def)

lemma toledo_strip:
  assumes "st \<in> {''ST'', ''US''}"
  shows "strip (st @ CHR '','' # rest @ ''kg'') = st @ CHR '','' # rest @ ''kg''"
proof (rule strip_id)
  show "st @ CHR '','' # rest @ ''kg'' \<noteq> []" by simp
  show "\<not> isspace (hd (st @ CHR '','' # rest @ ''kg''))"
    using assms by (auto simp: char_evals)
  have "last (st @ CHR '','' # rest @ ''kg'') = CHR ''g''" by simp
  then show "\<not> isspace (last (st @ CHR '','' # rest @ ''kg''))" by (simp add: char_evals)
qed

lemma filizola_strip:
  assumes "ip \<noteq> []" "list_all is_decimal_digit ip" "list_all is_decimal_digit fp"
    and "pf \<in> {'''', ''S'', ''W''}" "sg \<in> {'''', ''+'', ''-''}"
  shows "strip (pf @ sg @ ip @ CHR ''.'' # fp) = pf @ sg @ ip @ CHR ''.'' # fp"
proof (rule strip_id)
  from assms(1) obtain c r where c: "ip = c # r" by (cases ip) auto
  with assms(2) have cd: "is_decimal_digit c" by simp
  show "pf @ sg @ ip @ CHR ''.'' # fp \<noteq> []" by simp
  show "\<not> isspace (hd (pf @ sg @ ip @ CHR ''.'' # fp))"
    using assms(4,5) c digit_facts(3) [OF cd] by (auto simp: char_evals)
  have dot: "\<not> isspace CHR ''.''" by (simp add: isspace_def)
  show "\<not> isspace (last (pf @ sg @ ip @ CHR ''.'' # fp))"
  proof (cases "fp = []")
    case True
    then show ?thesis using dot by simp
  next
    case False
    then have "last fp \<in> set fp" by simp
    with assms(3) have "is_decimal_digit (last fp)" by (simp add: list_all_iff)
    with False digit_facts(3) show ?thesis by simp
  qed
qed

text \<open>
  C2, as the code has it. A connected driver receives a well-formed vendor line whose
  number is written with the digits \<open>ip\<close>, a point and the digits \<open>fp\<close>.
  \<^item> Toledo, \<open>status,mode,number kg\<close> with status \<open>ST\<close> or \<open>US\<close>, mode \<open>GS\<close> or \<open>NT\<close>
    and an optional sign: \<open>read_weight\<close> returns the signed value of the number, and
    the reading is stable exactly when the status is \<open>ST\<close>.
  \<^item> Filizola, an optional \<open>S\<close> or \<open>W\<close>, an optional sign, then the number:
    \<open>read_weight\<close> returns the value of the number without its sign (the prefix
    characters \<open>S\<close>, \<open>W\<close>, \<open>+\<close>, \<open>-\<close> are stripped before the conversion), and the
    reading is stable exactly when the line starts with \<open>S\<close>.

  In both cases the weight becomes the last weight and the status is \<open>CONNECTED\<close>.
  The witness is the line \<open>ST,GS,+00012.345kg\<close>: weight 12.345, stable.
\<close>

theorem read_weight_vendor_grammar:
  assumes "is_connected d"
    and "ip \<noteq> []" and "list_all is_decimal_digit ip" and "list_all is_decimal_digit fp"
    and "st \<in> {''ST'', ''US''}" and "md \<in> {''GS'', ''NT''}"
    and "sg \<in> {'''', ''+'', ''-''}" and "pf \<in> {'''', ''S'', ''W''}"
  shows "(let r = read_weight Toledo
                    (Line (st @ '','' @ md @ '','' @ sg @ ip @ ''.'' @ fp @ ''kg'')) d
          in fst r = Some ((if sg = ''-'' then - 1 else 1) * fixed_point_value ip fp)
             \<and> is_stable (snd r) = (st = ''ST'')
             \<and> last_weight (snd r) = fst r \<and> BaseScale.status (snd r) = CONNECTED)
       \<and> (let r = read_weight Filizola (Line (pf @ sg @ ip @ ''.'' @ fp)) d
          in fst r = Some (fixed_point_value ip fp)
             \<and> is_stable (snd r) = (pf = ''S'')
             \<and> last_weight (snd r) = fst r \<and> BaseScale.status (snd r) = CONNECTED)"
proof -
  let ?b = "d\<lparr>BaseScale.status := BUSY\<rparr>"
  let ?t = "st @ CHR '','' # (md @ CHR '','' # sg @ ip @ CHR ''.'' # fp) @ ''kg''"
  have pre: "\<forall>c\<in>set (st @ CHR '','' # md). isprintable c"
    using assms(5,6) by (auto simp: char_evals)
  have "parse_toledo_response ((st @ CHR '','' # md) @ CHR '','' # sg @ ip @ CHR ''.'' # fp @ ''kg'') ?b
        = (Some ((if sg = ''-'' then - 1 else 1) * fixed_point_value ip fp),
           ?b\<lparr>is_stable :=
                contains ''ST'' ((st @ CHR '','' # md) @ CHR '','' # sg @ ip @ CHR ''.'' # fp @ ''kg'')
                \<or> contains ''stable''
                     (lower ((st @ CHR '','' # md) @ CHR '','' # sg @ ip @ CHR ''.'' # fp @ ''kg''))\<rparr>)"
    by (rule toledo_number [OF assms(2,3,4,7) pre])
  with toledo_stability [OF assms(3,4,5,6,7)]
  have pt: "parse_response Toledo ?t ?b
        = (Some ((if sg = ''-'' then - 1 else 1) * fixed_point_value ip fp),
           ?b\<lparr>is_stable := (st = ''ST'')\<rparr>)"
    by simp
  have st: "strip ?t = ?t" by (rule toledo_strip [OF assms(5)])
  have "?t \<noteq> []" by simp
  from read_weight_parsed [OF assms(1) st this pt]
  have T: "read_weight Toledo (Line ?t) d
      = (Some ((if sg = ''-'' then - 1 else 1) * fixed_point_value ip fp),
         ?b\<lparr>is_stable := (st = ''ST''),
             last_weight := Some ((if sg = ''-'' then - 1 else 1) * fixed_point_value ip fp),
             BaseScale.status := CONNECTED\<rparr>)" .
  let ?f = "pf @ sg @ ip @ CHR ''.'' # fp"
  have pf: "parse_response Filizola ?f ?b
        = (Some (fixed_point_value ip fp), ?b\<lparr>is_stable := (pf = ''S'')\<rparr>)"
    using filizola_number [OF assms(2,3,4,8,7)] by simp
  have sf: "strip ?f = ?f" by (rule filizola_strip [OF assms(2,3,4,8,7)])
  have "?f \<noteq> []" by simp
  from read_weight_parsed [OF assms(1) sf this pf]
  have F: "read_weight Filizola (Line ?f) d
      = (Some (fixed_point_value ip fp),
         ?b\<lparr>is_stable := (pf = ''S''), last_weight := Some (fixed_point_value ip fp),
             BaseScale.status := CONNECTED\<rparr>)" .
  from T F show ?thesis by (simp add: Let_def)
qed

theorem read_weight_vendor_grammar_witness:
  "is_connected (new_scale\<lparr>serial_connection := Some True, BaseScale.status := CONNECTED\<rparr>)
   \<and> list_all is_decimal_digit ''00012'' \<and> list_all is_decimal_digit ''345''
   \<and> fst (read_weight Toledo (Line ''ST,GS,+00012.345kg'')
        (new_scale\<lparr>serial_connection := Some True, BaseScale.status := CONNECTED\<rparr>))
       = Some (12345 / 1000)
   \<and> is_stable (snd (read_weight Toledo (Line ''ST,GS,+00012.345kg'')
        (new_scale\<lparr>serial_connection := Some True, BaseScale.status := CONNECTED\<rparr>)))
   \<and> fst (read_weight Filizola (Line ''S+00012.345'')
        (new_scale\<lparr>serial_connection := Some True, BaseScale.status := CONNECTED\<rparr>))
       = Some (12345 / 1000)"
proof -
  have c: "is_connected (new_scale\<lparr>serial_connection := Some True, BaseScale.status := CONNECTED\<rparr>)"
    by (simp add: is_connected_def new_scale_def)
  have i: "list_all is_decimal_digit ''00012''" and f: "list_all is_decimal_digit ''345''"
    by (simp_all add: is_decimal_digit_def)
  have v: "fixed_point_value ''00012'' ''345'' = 12345 / 1000"
    by (simp add: fixed_point_value_def digits_value_def digit_value_def)
  have ne: "''00012'' \<noteq> []" by simp
  from read_weight_vendor_grammar [OF c ne i f, of "''ST''" "''GS''" "''+''" "''S''"] v c i f
  show ?thesis by (simp add: Let_def)
qed

text \<open>
  The claim as the specification words it has the returned decimal equal to the numeric
  value with its sign for every vendor. The Filizola line \<open>-001.500\<close> writes -1.5 and
  \<open>read_weight\<close> returns 1.5.
\<close>

theorem filizola_sign_counterexample:
  "Decimal ''-001.500'' = Some (- (3 / 2))
   \<and> fst (read_weight Filizola (Line ''-001.500'')
        (new_scale\<lparr>serial_connection := Some True, BaseScale.status := CONNECTED\<rparr>))
      = Some (3 / 2)"
  by (simp add: read_weight_def new_scale_def is_connected_def strip_def isspace_def
      parse_filizola_response_def isprintable_def filizola_numbers_def lstrip_def isdigit_def
      Decimal_def unsigned_decimal_def is_decimal_digit_def digits_value_def digit_value_def
      leave_busy_def)


section \<open>Scale drivers: waiting for a stable weight\<close>

declare wait_loop.simps [simp del]

lemma wait_loop_stop:
  "\<not> int elapsed < timeout_ms \<Longrightarrow> wait_loop v timeout_ms env k elapsed d = (None, elapsed, d)"
  by (subst wait_loop.simps) simp

lemma wait_loop_found:
  assumes "int elapsed < timeout_ms" "read_weight v (snd (env k)) d = (Some w, d')" "is_stable d'"
  shows "wait_loop v timeout_ms env k elapsed d = (Some w, elapsed + fst (env k), d')"
  using assms by (subst wait_loop.simps) simp

lemma wait_loop_next:
  assumes "int elapsed < timeout_ms" "read_weight v (snd (env k)) d = (w, d')"
    "\<not> (w \<noteq> None \<and> is_stable d')"
  shows "wait_loop v timeout_ms env k elapsed d
         = wait_loop v timeout_ms env (Suc k) (elapsed + fst (env k) + 100) d'"
  using assms by (subst wait_loop.simps) auto

lemma poll_start_mono: "k \<le> j \<Longrightarrow> poll_start env k \<le> poll_start env j"
  by (induction j) (auto simp: le_Suc_eq)

lemma wait_loop_never_stable:
  assumes "\<forall>i\<ge>k. \<not> stable_reading v env d0 i"
  shows "\<exists>t d'. wait_loop v T env k (poll_start env k) (driver_before v env d0 k) = (None, t, d')
           \<and> ((\<not> int (poll_start env k) < T \<and> t = poll_start env k)
               \<or> (\<exists>n\<ge>k. t = poll_start env (Suc n) \<and> int (poll_start env n) < T \<and> T \<le> int t))"
  using assms
proof (induction "nat (T - int (poll_start env k))" arbitrary: k rule: less_induct)
  case less
  show ?case
  proof (cases "int (poll_start env k) < T")
    case False
    then show ?thesis by (simp add: wait_loop_stop)
  next
    case True
    obtain w d' where r: "read_weight v (snd (env k)) (driver_before v env d0 k) = (w, d')"
      by (cases "read_weight v (snd (env k)) (driver_before v env d0 k)")
    from less.prems have "\<not> stable_reading v env d0 k" by simp
    with r have ns: "\<not> (w \<noteq> None \<and> is_stable d')"
      by (simp add: stable_reading_def poll_result_def)
    from r have d': "driver_before v env d0 (Suc k) = d'" by simp
    have step: "wait_loop v T env k (poll_start env k) (driver_before v env d0 k)
          = wait_loop v T env (Suc k) (poll_start env (Suc k)) (driver_before v env d0 (Suc k))"
      using wait_loop_next [where env = env and k = k, OF True r ns] d' by simp
    have m: "nat (T - int (poll_start env (Suc k))) < nat (T - int (poll_start env k))"
      using True by simp
    have "\<forall>i\<ge>Suc k. \<not> stable_reading v env d0 i" using less.prems by simp
    from less.hyps [OF m this] obtain t d''
      where w: "wait_loop v T env (Suc k) (poll_start env (Suc k)) (driver_before v env d0 (Suc k))
                 = (None, t, d'')"
        and b: "(\<not> int (poll_start env (Suc k)) < T \<and> t = poll_start env (Suc k))
               \<or> (\<exists>n\<ge>Suc k. t = poll_start env (Suc n) \<and> int (poll_start env n) < T \<and> T \<le> int t)"
      by blast
    from b have "\<exists>n\<ge>k. t = poll_start env (Suc n) \<and> int (poll_start env n) < T \<and> T \<le> int t"
    proof
      assume "\<not> int (poll_start env (Suc k)) < T \<and> t = poll_start env (Suc k)"
      with True show ?thesis by (intro exI [of _ k]) simp
    next
      assume "\<exists>n\<ge>Suc k. t = poll_start env (Suc n) \<and> int (poll_start env n) < T \<and> T \<le> int t"
      then obtain n where "n \<ge> Suc k" "t = poll_start env (Suc n)"
        "int (poll_start env n) < T" "T \<le> int t" by blast
      then show ?thesis by (intro exI [of _ n]) simp
    qed
    with step w show ?thesis by auto
  qed
qed

lemma wait_loop_first_stable:
  assumes "k \<le> j" "stable_reading v env d0 j" "int (poll_start env j) < T"
    "\<forall>i. k \<le> i \<and> i < j \<longrightarrow> \<not> stable_reading v env d0 i"
  shows "wait_loop v T env k (poll_start env k) (driver_before v env d0 k)
         = (fst (poll_result v env d0 j), poll_start env j + fst (env j),
            snd (poll_result v env d0 j))"
  using assms
proof (induction "j - k" arbitrary: k)
  case 0
  then have kj: "k = j" by simp
  obtain w d' where r: "read_weight v (snd (env j)) (driver_before v env d0 j) = (w, d')"
    by (cases "read_weight v (snd (env j)) (driver_before v env d0 j)")
  with "0.prems"(2) obtain x where x: "w = Some x" and s: "is_stable d'"
    by (auto simp: stable_reading_def poll_result_def)
  from wait_loop_found [where env = env and k = j, OF "0.prems"(3) r [unfolded x] s] r x kj
  show ?case
    by (simp add: poll_result_def)
next
  case (Suc m)
  then have lt: "k < j" by simp
  from poll_start_mono [of k j env] lt Suc.prems(3) have T: "int (poll_start env k) < T" by simp
  obtain w d' where r: "read_weight v (snd (env k)) (driver_before v env d0 k) = (w, d')"
    by (cases "read_weight v (snd (env k)) (driver_before v env d0 k)")
  from Suc.prems(4) lt have "\<not> stable_reading v env d0 k" by simp
  with r have ns: "\<not> (w \<noteq> None \<and> is_stable d')"
    by (simp add: stable_reading_def poll_result_def)
  from r have d': "driver_before v env d0 (Suc k) = d'" by simp
  have step: "wait_loop v T env k (poll_start env k) (driver_before v env d0 k)
        = wait_loop v T env (Suc k) (poll_start env (Suc k)) (driver_before v env d0 (Suc k))"
    using wait_loop_next [where env = env and k = k, OF T r ns] d' by simp
  have e: "m = j - Suc k" using Suc.hyps(2) by simp
  have le: "Suc k \<le> j" using lt by simp
  have al: "\<forall>i. Suc k \<le> i \<and> i < j \<longrightarrow> \<not> stable_reading v env d0 i"
    using Suc.prems(4) by simp
  have ih: "wait_loop v T env (Suc k) (poll_start env (Suc k)) (driver_before v env d0 (Suc k))
        = (fst (poll_result v env d0 j), poll_start env j + fst (env j),
           snd (poll_result v env d0 j))"
    by (rule Suc.hyps(1) [OF e le Suc.prems(2,3) al])
  show ?case by (rule trans [OF step ih])
qed

text \<open>
  C9, as the code has it. \<open>wait_for_stable_weight\<close> always returns: \<open>wait_loop\<close> is a
  total function, since every round of the loop moves the clock by at least the 100 ms
  of the sleep.
  \<^item> If no poll ever gives a weight with the stability flag set, the result is \<open>None\<close>.
    With a timeout that is not positive the method returns at once. Otherwise it
    returns at the first loop head at or after the timeout, and that is one
    \<open>read_weight\<close> and one 100 ms sleep after a loop head before the timeout: the time
    is below the timeout plus 100 ms plus the duration of the last \<open>read_weight\<close>, and
    below the timeout plus 100 ms when the reads take no time.
  \<^item> If poll \<open>j\<close> starts before the timeout and is the first to give a weight with the
    stability flag set, that weight is the result.
\<close>

theorem wait_for_stable_weight_result:
  "((\<forall>i. \<not> stable_reading v env d i) \<longrightarrow>
      (\<exists>t d'. wait_for_stable_weight v timeout env d = (None, t, d')
         \<and> (timeout \<le> 0 \<longrightarrow> t = 0)
         \<and> (0 < timeout \<longrightarrow>
              timeout * 1000 \<le> int t
              \<and> (\<exists>n. int (poll_start env n) < timeout * 1000
                     \<and> t = poll_start env n + fst (env n) + 100))
         \<and> ((\<forall>k. fst (env k) = 0) \<longrightarrow> int t < max 0 (timeout * 1000) + 100)))
   \<and> (\<forall>j. stable_reading v env d j \<and> int (poll_start env j) < timeout * 1000
            \<and> (\<forall>i<j. \<not> stable_reading v env d i) \<longrightarrow>
          fst (wait_for_stable_weight v timeout env d) = fst (poll_result v env d j)
          \<and> fst (poll_result v env d j) \<noteq> None)"
proof (intro conjI impI allI)
  assume a: "\<forall>i. \<not> stable_reading v env d i"
  then have "\<forall>i\<ge>0. \<not> stable_reading v env d i" by simp
  from wait_loop_never_stable [OF this, of "timeout * 1000"] obtain t d'
    where w: "wait_for_stable_weight v timeout env d = (None, t, d')"
      and b: "(\<not> 0 < timeout * 1000 \<and> t = 0)
             \<or> (\<exists>n. t = poll_start env (Suc n) \<and> int (poll_start env n) < timeout * 1000
                    \<and> timeout * 1000 \<le> int t)"
    by (auto simp: wait_for_stable_weight_def)
  from b have 1: "timeout \<le> 0 \<longrightarrow> t = 0"
  proof
    assume "\<not> 0 < timeout * 1000 \<and> t = 0" then show ?thesis by simp
  next
    assume "\<exists>n. t = poll_start env (Suc n) \<and> int (poll_start env n) < timeout * 1000
                    \<and> timeout * 1000 \<le> int t"
    then obtain n where "int (poll_start env n) < timeout * 1000" by blast
    then have "0 < timeout" by (smt (verit) of_nat_0_le_iff mult_nonneg_nonpos2 mult.commute)
    then show ?thesis by simp
  qed
  from b have 2: "0 < timeout \<longrightarrow>
              timeout * 1000 \<le> int t
              \<and> (\<exists>n. int (poll_start env n) < timeout * 1000
                     \<and> t = poll_start env n + fst (env n) + 100)"
    by auto
  have 3: "(\<forall>k. fst (env k) = 0) \<longrightarrow> int t < max 0 (timeout * 1000) + 100"
  proof
    assume z: "\<forall>k. fst (env k) = 0"
    from b show "int t < max 0 (timeout * 1000) + 100"
    proof
      assume "\<not> 0 < timeout * 1000 \<and> t = 0" then show ?thesis by simp
    next
      assume "\<exists>n. t = poll_start env (Suc n) \<and> int (poll_start env n) < timeout * 1000
                    \<and> timeout * 1000 \<le> int t"
      then obtain n where "t = poll_start env (Suc n)" "int (poll_start env n) < timeout * 1000"
        by blast
      with z show ?thesis by simp
    qed
  qed
  from w 1 2 3
  show "\<exists>t d'. wait_for_stable_weight v timeout env d = (None, t, d')
         \<and> (timeout \<le> 0 \<longrightarrow> t = 0)
         \<and> (0 < timeout \<longrightarrow>
              timeout * 1000 \<le> int t
              \<and> (\<exists>n. int (poll_start env n) < timeout * 1000
                     \<and> t = poll_start env n + fst (env n) + 100))
         \<and> ((\<forall>k. fst (env k) = 0) \<longrightarrow> int t < max 0 (timeout * 1000) + 100)"
    by blast
next
  fix j
  assume a: "stable_reading v env d j \<and> int (poll_start env j) < timeout * 1000
            \<and> (\<forall>i<j. \<not> stable_reading v env d i)"
  then have "\<forall>i. 0 \<le> i \<and> i < j \<longrightarrow> \<not> stable_reading v env d i" by simp
  from wait_loop_first_stable [of 0 j v env d "timeout * 1000", OF _ _ _ this] a
  show "fst (wait_for_stable_weight v timeout env d) = fst (poll_result v env d j)"
    by (simp add: wait_for_stable_weight_def)
next
  fix j
  assume a: "stable_reading v env d j \<and> int (poll_start env j) < timeout * 1000
            \<and> (\<forall>i<j. \<not> stable_reading v env d i)"
  then show "fst (poll_result v env d j) \<noteq> None" by (simp add: stable_reading_def)
qed

lemma steady_never_stable:
  assumes "read_weight v r d = (w, d1)" "read_weight v r d1 = (w, d1)" "\<not> is_stable d1"
  shows "\<not> stable_reading v (steady (t, r)) d i"
proof -
  have b: "driver_before v (steady (t, r)) d (Suc k) = d1" for k
    using assms(1,2) by (induction k) (simp_all add: steady_def)
  have "poll_result v (steady (t, r)) d i = (w, d1)"
    using assms(1,2) b by (cases i) (simp_all add: poll_result_def steady_def)
  with assms(3) show ?thesis by (simp add: stable_reading_def)
qed

lemmas scale_eval =
  read_weight_def new_scale_def is_connected_def strip_def isspace_def
  parse_toledo_response_def isprintable_def toledo_weight_str_def last_field_def isdigit_def
  Decimal_def unsigned_decimal_def is_decimal_digit_def digits_value_def digit_value_def
  leave_busy_def lower_def lower_char_def is_upper_def

lemma unstable_line_reads:
  "read_weight Toledo (Line ''US,GS,+00012.345kg'')
     (new_scale\<lparr>serial_connection := Some True, BaseScale.status := CONNECTED\<rparr>)
   = (Some (12345 / 1000),
      new_scale\<lparr>serial_connection := Some True, BaseScale.status := CONNECTED,
                last_weight := Some (12345 / 1000)\<rparr>)"
  "read_weight Toledo (Line ''US,GS,+00012.345kg'')
     (new_scale\<lparr>serial_connection := Some True, BaseScale.status := CONNECTED,
                last_weight := Some (12345 / 1000)\<rparr>)
   = (Some (12345 / 1000),
      new_scale\<lparr>serial_connection := Some True, BaseScale.status := CONNECTED,
                last_weight := Some (12345 / 1000)\<rparr>)"
  "\<not> is_stable (new_scale\<lparr>serial_connection := Some True, BaseScale.status := CONNECTED,
                last_weight := Some (12345 / 1000)\<rparr>)"
  by (simp_all add: scale_eval)

theorem wait_for_stable_weight_result_witness:
  "(\<forall>i. \<not> stable_reading Toledo (steady (0, Line ''US,GS,+00012.345kg''))
           (new_scale\<lparr>serial_connection := Some True, BaseScale.status := CONNECTED\<rparr>) i)
   \<and> (\<exists>t d'. wait_for_stable_weight Toledo 1 (steady (0, Line ''US,GS,+00012.345kg''))
           (new_scale\<lparr>serial_connection := Some True, BaseScale.status := CONNECTED\<rparr>)
         = (None, t, d') \<and> 1000 \<le> int t \<and> int t < 1100)
   \<and> stable_reading Toledo (steady (20, Line ''ST,GS,+00012.345kg''))
           (new_scale\<lparr>serial_connection := Some True, BaseScale.status := CONNECTED\<rparr>) 0
   \<and> fst (wait_for_stable_weight Toledo 1 (steady (20, Line ''ST,GS,+00012.345kg''))
           (new_scale\<lparr>serial_connection := Some True, BaseScale.status := CONNECTED\<rparr>))
      = Some (12345 / 1000)"
proof -
  let ?c = "new_scale\<lparr>serial_connection := Some True, BaseScale.status := CONNECTED\<rparr>"
  let ?u = "steady (0, Line ''US,GS,+00012.345kg'')"
  let ?s = "steady (20, Line ''ST,GS,+00012.345kg'')"
  have n: "\<forall>i. \<not> stable_reading Toledo ?u ?c i"
    using steady_never_stable [OF unstable_line_reads] by blast
  have z: "\<forall>k. fst (?u k) = 0" by (simp add: steady_def)
  have p: "poll_result Toledo ?s ?c 0
      = (Some (12345 / 1000), ?c\<lparr>last_weight := Some (12345 / 1000), is_stable := True\<rparr>)"
    by (simp add: poll_result_def steady_def scale_eval)
  then have s: "stable_reading Toledo ?s ?c 0" by (simp add: stable_reading_def)
  have b: "int (poll_start ?s 0) < 1 * 1000" by simp
  have f: "\<forall>i<0::nat. \<not> stable_reading Toledo ?s ?c i" by simp
  from wait_for_stable_weight_result [of Toledo ?u ?c 1] n z
  have 1: "\<exists>t d'. wait_for_stable_weight Toledo 1 ?u ?c = (None, t, d')
            \<and> 1000 \<le> int t \<and> int t < 1100"
    by auto
  from wait_for_stable_weight_result [of Toledo ?s ?c 1] s b f p
  have 2: "fst (wait_for_stable_weight Toledo 1 ?s ?c) = Some (12345 / 1000)"
    by (metis fst_conv)
  from n 1 s 2 show ?thesis by blast
qed

text \<open>
  The claim as the specification words it bounds the wait by the timeout plus one 100 ms
  poll interval. With a timeout of 1 s and a scale whose every reading is unstable and
  takes 500 ms, the polls start at 0 and 600 ms and the method returns at 1200 ms.
\<close>

theorem wait_for_stable_weight_counterexample:
  "wait_for_stable_weight Toledo 1 (steady (500, Line ''US,GS,+00012.345kg''))
     (new_scale\<lparr>serial_connection := Some True, BaseScale.status := CONNECTED\<rparr>)
   = (None, 1200,
      new_scale\<lparr>serial_connection := Some True, BaseScale.status := CONNECTED,
                last_weight := Some (12345 / 1000)\<rparr>)
   \<and> \<not> stable_reading Toledo (steady (500, Line ''US,GS,+00012.345kg''))
         (new_scale\<lparr>serial_connection := Some True, BaseScale.status := CONNECTED\<rparr>) 0
   \<and> \<not> stable_reading Toledo (steady (500, Line ''US,GS,+00012.345kg''))
         (new_scale\<lparr>serial_connection := Some True, BaseScale.status := CONNECTED\<rparr>) 1
   \<and> \<not> (1200 \<le> 1 * 1000 + (100::int))"
proof -
  let ?c = "new_scale\<lparr>serial_connection := Some True, BaseScale.status := CONNECTED\<rparr>"
  let ?c1 = "new_scale\<lparr>serial_connection := Some True, BaseScale.status := CONNECTED,
                last_weight := Some (12345 / 1000)\<rparr>"
  let ?e = "steady (500, Line ''US,GS,+00012.345kg'')"
  have e: "?e k = (500, Line ''US,GS,+00012.345kg'')" for k by (simp add: steady_def)
  have n: "\<not> stable_reading Toledo ?e ?c i" for i
    using steady_never_stable [OF unstable_line_reads] by blast
  have r0: "read_weight Toledo (snd (?e 0)) ?c = (Some (12345 / 1000), ?c1)"
    using unstable_line_reads(1) by (simp add: e)
  have r1: "read_weight Toledo (snd (?e (Suc 0))) ?c1 = (Some (12345 / 1000), ?c1)"
    using unstable_line_reads(2) by (simp add: e)
  have u: "\<not> (Some (12345 / 1000 :: rat) \<noteq> None \<and> is_stable ?c1)"
    using unstable_line_reads(3) by simp
  have "wait_loop Toledo 1000 ?e 0 0 ?c = wait_loop Toledo 1000 ?e (Suc 0) 600 ?c1"
    using wait_loop_next [where env = ?e and k = 0, OF _ r0 u, of 0 1000] by (simp add: e)
  also have "\<dots> = wait_loop Toledo 1000 ?e (Suc (Suc 0)) 1200 ?c1"
    using wait_loop_next [where env = ?e and k = "Suc 0", OF _ r1 u, of 600 1000]
    by (simp add: e)
  also have "\<dots> = (None, 1200, ?c1)" by (simp add: wait_loop_stop)
  finally have "wait_for_stable_weight Toledo 1 ?e ?c = (None, 1200, ?c1)"
    by (simp add: wait_for_stable_weight_def)
  with n [of 0] n [of 1] show ?thesis by simp
qed


section \<open>Scale manager: the choice of the driver\<close>

text \<open>
  C7, as the code has it. When the configuration is enabled (\<open>enabled\<close> is present and
  true) and its \<open>default_brand\<close> is a string that, lower-cased, is not a key of
  \<open>SUPPORTED_BRANDS\<close>, the construction of the manager raises \<open>EquipmentError\<close>.
\<close>

theorem unsupported_brand_fails_fast:
  assumes "truthy (dict_get config ''enabled'' (JBool False))"
    and "map_of config ''default_brand'' = Some (JStr b)"
    and "lower b \<notin> set (map fst SUPPORTED_BRANDS)"
  shows "initialize_scale config = Inl (EquipmentError (msg_unsupported_brand (lower b)))"
proof -
  from assms(3) have "map_of SUPPORTED_BRANDS (lower b) = None"
    by (simp add: map_of_eq_None_iff)
  with assms(1,2) show ?thesis
    by (simp add: initialize_scale_def dict_get_def Let_def)
qed

theorem unsupported_brand_fails_fast_witness:
  "truthy (dict_get [(''enabled'', JBool True), (''default_brand'', JStr ''Acme'')]
             ''enabled'' (JBool False))
   \<and> lower ''Acme'' \<notin> set (map fst SUPPORTED_BRANDS)
   \<and> initialize_scale [(''enabled'', JBool True), (''default_brand'', JStr ''Acme'')]
       = Inl (EquipmentError (msg_unsupported_brand ''acme''))"
proof -
  have e: "truthy (dict_get [(''enabled'', JBool True), (''default_brand'', JStr ''Acme'')]
             ''enabled'' (JBool False))"
    by (simp add: dict_get_def)
  have m: "map_of [(''enabled'', JBool True), (''default_brand'', JStr ''Acme'')]
             ''default_brand'' = Some (JStr ''Acme'')"
    by simp
  have l: "lower ''Acme'' = ''acme''" by (simp add: lower_def lower_char_def is_upper_def)
  have n: "lower ''Acme'' \<notin> set (map fst SUPPORTED_BRANDS)"
    by (simp add: l SUPPORTED_BRANDS_def)
  from unsupported_brand_fails_fast [OF e m n] e n l show ?thesis by simp
qed

text \<open>
  The claim as the specification words it covers every configuration. \<open>_initialize_scale\<close>
  returns before it looks at the brand when \<open>enabled\<close> is false or absent: with the
  brand \<open>acme\<close> the construction succeeds and the manager holds no scale.
\<close>

theorem disabled_unsupported_brand_counterexample:
  "lower ''acme'' \<notin> set (map fst SUPPORTED_BRANDS)
   \<and> initialize_scale [(''enabled'', JBool False), (''default_brand'', JStr ''acme'')]
       = Inr None
   \<and> initialize_scale [(''default_brand'', JStr ''acme'')] = Inr None"
  by (simp add: initialize_scale_def dict_get_def SUPPORTED_BRANDS_def lower_def lower_char_def
      is_upper_def)

section \<open>Configuration: the deep merge\<close>

lemma map_of_deep_merge:
  assumes "distinct (map fst ov)"
  shows "map_of (deep_merge base ov) k =
     (case map_of ov k of
        None \<Rightarrow> map_of base k
      | Some v \<Rightarrow>
          (case (map_of base k, v) of
             (Some (JDict b), JDict ov') \<Rightarrow> Some (JDict (deep_merge b ov'))
           | _ \<Rightarrow> Some v))"
  using assms
proof (induction ov arbitrary: base)
  case Nil
  then show ?case by simp
next
  case (Cons kv ov)
  obtain key v where kv: "kv = (key, v)" by (cases kv)
  from Cons.prems kv have d: "distinct (map fst ov)" and n: "key \<notin> fst ` set ov" by auto
  from n have none: "map_of ov key = None" by (simp add: map_of_eq_None_iff)
  show ?case
    unfolding kv deep_merge.simps Cons.IH [OF d]
    using none
    by (auto simp: dict_set_def update_conv' split: option.splits json.splits)
qed


lemma wf_dict_sub:
  assumes "wf_dict d" "map_of d k = Some (JDict o')"
  shows "wf_dict o'"
proof -
  from assms(2) have "(k, JDict o') \<in> set d" by (rule map_of_SomeD)
  moreover from assms(1) have "\<forall>kv\<in>set d. wf_json (snd kv)"
    by (simp add: wf_dict_def list_all_iff)
  ultimately have "wf_json (snd (k, JDict o'))" by blast
  then show ?thesis by (simp only: wf_dict_def snd_conv)
qed

lemma override_wins_path:
  assumes "wf_dict ov" "get_path (JDict ov) p = Some v" "\<not> is_dict v"
  shows "get_path (JDict (deep_merge base ov)) p = Some v"
  using assms
proof (induction p arbitrary: base ov)
  case Nil
  then show ?case by auto
next
  case (Cons k ks)
  from Cons.prems(2) obtain v1 where v1: "map_of ov k = Some v1" and g: "get_path v1 ks = Some v"
    by (auto split: option.splits)
  from Cons.prems(1) have d: "distinct (map fst ov)" by (simp add: wf_dict_def)
  show ?case
  proof (cases "\<exists>b o'. map_of base k = Some (JDict b) \<and> v1 = JDict o'")
    case True
    then obtain b o' where b: "map_of base k = Some (JDict b)" and o: "v1 = JDict o'" by blast
    from wf_dict_sub [OF Cons.prems(1)] v1 o have "wf_dict o'" by simp
    from Cons.IH [OF this _ Cons.prems(3), of b] g o
    have "get_path (JDict (deep_merge b o')) ks = Some v" by simp
    with map_of_deep_merge [OF d, of base k] v1 b o show ?thesis by simp
  next
    case False
    with map_of_deep_merge [OF d, of base k] v1
    have "map_of (deep_merge base ov) k = Some v1"
      by (auto split: option.splits json.splits)
    with g show ?thesis by simp
  qed
qed

lemma deep_merge_absorbed:
  assumes "\<forall>(k, v)\<in>set ov.
             (case (map_of base k, v) of
                (Some (JDict b), JDict o') \<Rightarrow> deep_merge b o' = b
              | _ \<Rightarrow> map_of base k = Some v)"
  shows "deep_merge base ov = base"
  using assms
proof (induction ov)
  case Nil
  then show ?case by simp
next
  case (Cons kv ov)
  obtain key v where kv: "kv = (key, v)" by (cases kv)
  from Cons.prems kv
  have h: "(case (map_of base key, v) of
                (Some (JDict b), JDict o') \<Rightarrow> deep_merge b o' = b
              | _ \<Rightarrow> map_of base key = Some v)"
    by simp
  have "(case (map_of base key, v) of
          (Some (JDict b), JDict ov') \<Rightarrow> dict_set key (JDict (deep_merge b ov')) base
        | _ \<Rightarrow> dict_set key v base) = base"
    using h by (auto simp: dict_set_def update_triv split: option.splits json.splits)
  with Cons show ?case unfolding kv by simp
qed

lemma size_entry:
  "(k, v) \<in> set d \<Longrightarrow> size v < size_list (size_prod (\<lambda>k. 0) size) d"
  by (induction d) auto

lemma deep_merge_self:
  assumes "wf_dict d"
  shows "deep_merge d d = d"
  using assms
proof (induction d rule: measure_induct_rule [of "size_list (size_prod (\<lambda>k. 0) size)"])
  case (less d)
  from less.prems have dist: "distinct (map fst d)" by (simp add: wf_dict_def)
  have "(case (map_of d k, v) of
                (Some (JDict b), JDict o') \<Rightarrow> deep_merge b o' = b
              | _ \<Rightarrow> map_of d k = Some v)" if in_d: "(k, v) \<in> set d" for k v
  proof -
    from in_d dist have m: "map_of d k = Some v" by simp
    show ?thesis
    proof (cases v)
      case (JDict o')
      from size_entry [OF in_d] JDict
      have "size_list (size_prod (\<lambda>k. 0) size) o' < size_list (size_prod (\<lambda>k. 0) size) d"
        by simp
      moreover from wf_dict_sub [OF less.prems] m JDict have "wf_dict o'" by simp
      ultimately have "deep_merge o' o' = o'" by (rule less.IH)
      with m JDict show ?thesis by simp
    qed (use m in simp_all)
  qed
  then have "\<forall>(k, v)\<in>set d.
             (case (map_of d k, v) of
                (Some (JDict b), JDict o') \<Rightarrow> deep_merge b o' = b
              | _ \<Rightarrow> map_of d k = Some v)"
    by blast
  then show ?case by (rule deep_merge_absorbed)
qed

lemma deep_merge_idem:
  assumes "wf_dict ov"
  shows "deep_merge (deep_merge base ov) ov = deep_merge base ov"
  using assms
proof (induction ov arbitrary: base
    rule: measure_induct_rule [of "size_list (size_prod (\<lambda>k. 0) size)"])
  case (less ov)
  from less.prems have dist: "distinct (map fst ov)" by (simp add: wf_dict_def)
  have "(case (map_of (deep_merge base ov) k, v) of
                (Some (JDict b), JDict o') \<Rightarrow> deep_merge b o' = b
              | _ \<Rightarrow> map_of (deep_merge base ov) k = Some v)"
    if in_ov: "(k, v) \<in> set ov" for k v
  proof -
    from in_ov dist have m: "map_of ov k = Some v" by simp
    note A = map_of_deep_merge [OF dist, of base k, unfolded m option.case]
    show ?thesis
    proof (cases v)
      case (JDict o')
      from size_entry [OF in_ov] JDict
      have sm: "size_list (size_prod (\<lambda>k. 0) size) o' < size_list (size_prod (\<lambda>k. 0) size) ov"
        by simp
      from wf_dict_sub [OF less.prems] m JDict have wo: "wf_dict o'" by simp
      show ?thesis
      proof (cases "\<exists>b. map_of base k = Some (JDict b)")
        case True
        then obtain b where b: "map_of base k = Some (JDict b)" by blast
        with A JDict have "map_of (deep_merge base ov) k = Some (JDict (deep_merge b o'))"
          by simp
        moreover have "deep_merge (deep_merge b o') o' = deep_merge b o'"
          by (rule less.IH [OF sm wo])
        ultimately show ?thesis using JDict by simp
      next
        case False
        with A JDict have "map_of (deep_merge base ov) k = Some (JDict o')"
          by (auto split: option.splits json.splits)
        with deep_merge_self [OF wo] JDict show ?thesis by simp
      qed
    next
      case JNull with A show ?thesis by (auto split: option.splits json.splits)
    next
      case (JBool x) with A show ?thesis by (auto split: option.splits json.splits)
    next
      case (JNum x) with A show ?thesis by (auto split: option.splits json.splits)
    next
      case (JStr x) with A show ?thesis by (auto split: option.splits json.splits)
    next
      case (JList x) with A show ?thesis by (auto split: option.splits json.splits)
    qed
  qed
  then have "\<forall>(k, v)\<in>set ov.
             (case (map_of (deep_merge base ov) k, v) of
                (Some (JDict b), JDict o') \<Rightarrow> deep_merge b o' = b
              | _ \<Rightarrow> map_of (deep_merge base ov) k = Some v)"
    by blast
  then show ?case by (rule deep_merge_absorbed)
qed

text \<open>
  C6. The override is a dictionary as Python has them, without a repeated key at any
  level. After \<open>_deep_merge(base, override)\<close>:
  \<^item> at every key, a key that the override lacks keeps the value of the base; where both
    hold a dictionary the two are merged by the same rule; in every other case the
    value of the override replaces the one of the base;
  \<^item> hence along every path of nested keys that leads to a non-dictionary value in the
    override, the merged dictionary holds that value;
  \<^item> merging the same override again changes nothing, and merging a dictionary with
    itself leaves it as it is;
  \<^item> \<open>{a: {b: 1, c: 2}}\<close> merged with \<open>{a: {b: 9}}\<close> is \<open>{a: {b: 9, c: 2}}\<close>.
\<close>

theorem deep_merge_override_wins:
  assumes "wf_dict override"
  shows "(\<forall>k. map_of (deep_merge base override) k =
            (case map_of override k of
               None \<Rightarrow> map_of base k
             | Some v \<Rightarrow>
                 (case (map_of base k, v) of
                    (Some (JDict b), JDict ov') \<Rightarrow> Some (JDict (deep_merge b ov'))
                  | _ \<Rightarrow> Some v)))
       \<and> (\<forall>p v. get_path (JDict override) p = Some v \<and> \<not> is_dict v \<longrightarrow>
                 get_path (JDict (deep_merge base override)) p = Some v)
       \<and> deep_merge (deep_merge base override) override = deep_merge base override
       \<and> deep_merge override override = override
       \<and> deep_merge [(''a'', JDict [(''b'', JNum 1), (''c'', JNum 2)])]
                     [(''a'', JDict [(''b'', JNum 9)])]
           = [(''a'', JDict [(''b'', JNum 9), (''c'', JNum 2)])]"
proof -
  from assms have d: "distinct (map fst override)" by (simp add: wf_dict_def)
  have 1: "\<forall>k. map_of (deep_merge base override) k =
            (case map_of override k of
               None \<Rightarrow> map_of base k
             | Some v \<Rightarrow>
                 (case (map_of base k, v) of
                    (Some (JDict b), JDict ov') \<Rightarrow> Some (JDict (deep_merge b ov'))
                  | _ \<Rightarrow> Some v))"
    using map_of_deep_merge [OF d] by blast
  have 2: "\<forall>p v. get_path (JDict override) p = Some v \<and> \<not> is_dict v \<longrightarrow>
                 get_path (JDict (deep_merge base override)) p = Some v"
    using override_wins_path [OF assms] by blast
  have 3: "deep_merge (deep_merge base override) override = deep_merge base override"
    by (rule deep_merge_idem [OF assms])
  have 4: "deep_merge override override = override"
    by (rule deep_merge_self [OF assms])
  have 5: "deep_merge [(''a'', JDict [(''b'', JNum 1), (''c'', JNum 2)])]
                     [(''a'', JDict [(''b'', JNum 9)])]
           = [(''a'', JDict [(''b'', JNum 9), (''c'', JNum 2)])]"
    by (simp add: dict_set_def)
  from 1 2 3 4 5 show ?thesis by blast
qed

theorem deep_merge_override_wins_witness:
  "wf_dict [(''a'', JDict [(''b'', JNum 9)]), (''port'', JStr ''COM3'')]
   \<and> get_path (JDict [(''a'', JDict [(''b'', JNum 9)]), (''port'', JStr ''COM3'')])
        [''a'', ''b''] = Some (JNum 9)
   \<and> get_path (JDict (deep_merge [(''a'', JDict [(''b'', JNum 1), (''c'', JNum 2)])]
                  [(''a'', JDict [(''b'', JNum 9)]), (''port'', JStr ''COM3'')]))
        [''a'', ''b''] = Some (JNum 9)
   \<and> deep_merge [(''a'', JDict [(''b'', JNum 9)]), (''port'', JStr ''COM3'')]
                 [(''a'', JDict [(''b'', JNum 9)]), (''port'', JStr ''COM3'')]
       = [(''a'', JDict [(''b'', JNum 9)]), (''port'', JStr ''COM3'')]"
proof -
  have w: "wf_dict [(''a'', JDict [(''b'', JNum 9)]), (''port'', JStr ''COM3'')]"
    by (simp add: wf_dict_def)
  have g: "get_path (JDict [(''a'', JDict [(''b'', JNum 9)]), (''port'', JStr ''COM3'')])
        [''a'', ''b''] = Some (JNum 9)"
    by simp
  have l: "\<not> is_dict (JNum 9)" by simp
  from deep_merge_override_wins
    [OF w, of "[(''a'', JDict [(''b'', JNum 1), (''c'', JNum 2)])]"] w g l
  show ?thesis by blast
qed

end
